theory Spec2Isabelle
  imports Complex_Main "HOL-Library.Sublist"
begin

section \<open>Duration codec (\<^verbatim>\<open>test_duration_transform.py\<close>)\<close>

text \<open>
  Python strings are modelled as \<^typ>\<open>string\<close>. The pattern class \<^verbatim>\<open>\d\<close> matches the
  decimal digits; among the characters of \<^typ>\<open>char\<close> these are \<^verbatim>\<open>0\<close> to \<^verbatim>\<open>9\<close>.
\<close>

definition is_digit :: "char \<Rightarrow> bool" where
  "is_digit c = (c \<in> set ''0123456789'')"

definition digit_value :: "char \<Rightarrow> int" where
  "digit_value c = int (of_char c) - 48"

text \<open>
  The interpreter limits the number of digits of a string that \<^verbatim>\<open>int()\<close> converts:
  \<^verbatim>\<open>sys.int_max_str_digits\<close>, 4300 unless the interpreter is configured otherwise. Leading
  zeros count.
\<close>

definition int_max_str_digits :: nat where
  "int_max_str_digits = 4300"

text \<open>
  \<^verbatim>\<open>int(s)\<close> for a string of decimal digits: its value in base ten when it has at most
  \<open>int_max_str_digits\<close> digits; with more digits \<^verbatim>\<open>int()\<close> raises \<^verbatim>\<open>ValueError\<close>, which is
  the result \<open>None\<close>. The codec only ever converts group 1 of a match of \<^verbatim>\<open>(\d+)\<close>, a
  string of one digit or more; the model gives \<open>None\<close> for any other string as well.
\<close>

definition int_of_digits :: "string \<Rightarrow> int option" where
  "int_of_digits s =
     (if s \<noteq> [] \<and> list_all is_digit s \<and> length s \<le> int_max_str_digits
      then Some (foldl (\<lambda>acc c. 10 * acc + digit_value c) 0 s)
      else None)"

text \<open>
  \<^verbatim>\<open>re.match(r'(\d+)X', s)\<close> for a letter \<open>X\<close> that is not a digit: the greedy \<^verbatim>\<open>\d+\<close>
  takes the longest run of digits at the start of \<open>s\<close>; giving digits back can only put
  a digit where \<open>X\<close> is expected, so the match succeeds exactly when that run is not
  empty and \<open>X\<close> follows it. The result is group 1.
\<close>

definition match_here :: "char \<Rightarrow> string \<Rightarrow> string option" where
  "match_here x s =
     (case dropWhile is_digit s of
        [] \<Rightarrow> None
      | c # _ \<Rightarrow> if takeWhile is_digit s \<noteq> [] \<and> c = x then Some (takeWhile is_digit s) else None)"

text \<open>\<^verbatim>\<open>re.search\<close>: the match at the leftmost start position that has one.\<close>

fun re_search :: "char \<Rightarrow> string \<Rightarrow> string option" where
  "re_search x [] = None"
| "re_search x (c # cs) =
     (case match_here x (c # cs) of
        Some g \<Rightarrow> Some g
      | None \<Rightarrow> re_search x cs)"

text \<open>
  One of the three blocks \<^verbatim>\<open>m = re.search(r'(\d+)X', duration); if m: v = int(m.group(1))\<close>,
  with the initial value 0 when there is no match. \<open>None\<close>: the conversion raises
  \<^verbatim>\<open>ValueError\<close>.
\<close>

definition component :: "char \<Rightarrow> string \<Rightarrow> int option" where
  "component x d =
     (case re_search x d of
        None \<Rightarrow> Some 0
      | Some g \<Rightarrow> int_of_digits g)"

text \<open>
  The function has no \<^verbatim>\<open>try\<close>: a \<^verbatim>\<open>ValueError\<close> of one of the three conversions, made in
  the order hours, minutes, seconds, reaches the caller. That is the result \<open>None\<close>.
\<close>

definition iso_to_seconds :: "string \<Rightarrow> int option" where
  "iso_to_seconds duration =
     (if duration = [] \<or> \<not> prefix ''PT'' duration then Some 0
      else
        let d = drop 2 duration in
        case component CHR ''H'' d of
          None \<Rightarrow> None
        | Some hours \<Rightarrow>
            (case component CHR ''M'' d of
               None \<Rightarrow> None
             | Some minutes \<Rightarrow>
                 (case component CHR ''S'' d of
                    None \<Rightarrow> None
                  | Some seconds \<Rightarrow> Some ((hours * 3600) + (minutes * 60) + seconds))))"

definition get_duration_label :: "int \<Rightarrow> string" where
  "get_duration_label seconds = (if seconds < 60 then ''short'' else ''long'')"


section \<open>Data model of the loader (\<^verbatim>\<open>dags/youtube_load_db.py\<close>)\<close>

text \<open>
  The exceptions a task can end with. \<open>KeyError\<close> carries the missing key,
  \<open>ValueError\<close> is raised by \<^verbatim>\<open>int()\<close>, \<open>DatabaseError\<close> by a statement the database
  rejects.
\<close>

datatype error = KeyError string | ValueError | DatabaseError

text \<open>
  A statistic of the snapshot is a JSON integer or a JSON string; a key that is absent
  and a key that holds \<^verbatim>\<open>null\<close> both make \<^verbatim>\<open>video.get(...)\<close> return \<^verbatim>\<open>None\<close>.
\<close>

datatype count = CInt int | CStr string

text \<open>
  One element of \<^verbatim>\<open>data['videos']\<close>. A field is \<open>None\<close> when the dictionary has no such
  key (for the three statistics: no such key, or \<^verbatim>\<open>null\<close>). The text fields, when
  present, are strings.
\<close>

record video =
  video_id :: "string option"
  title :: "string option"
  published_at :: "string option"
  duration :: "string option"
  duration_readable :: "string option"
  view_count :: "count option"
  like_count :: "count option"
  comment_count :: "count option"

text \<open>
  The loaded JSON document \<^verbatim>\<open>data\<close>, with the four keys the task reads from it. Finding
  and opening the file is the work of the task before and is not modelled.
\<close>

record snapshot =
  videos :: "video list"
  channel_id :: string
  channel_handle :: string
  extraction_date :: string

text \<open>
  A row of \<^verbatim>\<open>staging.youtube_videos_raw\<close> without its primary key \<^verbatim>\<open>video_id\<close>; a table
  is the list of its rows in storage order, each paired with its key. The primary key
  makes the keys of a table distinct. The fields of the three kinds of rows are the
  columns, with a letter in front that keeps the records apart.
\<close>

record staging_row =
  s_title :: string
  s_published_at :: string
  s_duration :: string
  s_duration_readable :: string
  s_view_count :: int
  s_like_count :: int
  s_comment_count :: int
  s_channel_id :: string
  s_channel_handle :: string
  s_extraction_date :: string

type_synonym staging = "(string \<times> staging_row) list"

text \<open>
  A row of \<^verbatim>\<open>core.videos\<close> without its primary key. \<open>'i\<close> is the type of SQL intervals,
  \<open>'t\<close> the type of SQL timestamps.
\<close>

record ('i, 't) core_row =
  c_title :: string
  c_published_at :: string
  c_duration :: string
  c_duration_readable :: string
  c_duration_seconds :: 'i
  c_duration_label :: string
  c_channel_id :: string
  c_channel_handle :: string
  c_created_at :: 't
  c_updated_at :: 't

type_synonym ('i, 't) core = "(string \<times> ('i, 't) core_row) list"

text \<open>A row of \<^verbatim>\<open>core.video_statistics\<close>.\<close>

record 't statistics_row =
  h_video_id :: string
  h_view_count :: int
  h_like_count :: int
  h_comment_count :: int
  h_recorded_at :: 't

text \<open>The three tables.\<close>

record ('i, 't) database =
  staging_tbl :: staging
  core_tbl :: "('i, 't) core"
  statistics_tbl :: "'t statistics_row list"

text \<open>
  What the code takes from outside the repository:
  \<^item> \<open>to_int\<close>: Python's \<^verbatim>\<open>int()\<close> on a string (\<open>None\<close>: it raises \<^verbatim>\<open>ValueError\<close>);
  \<^item> \<open>read_ok\<close>: whether \<^verbatim>\<open>SELECT video_id FROM staging.youtube_videos_raw\<close> succeeds;
  \<^item> \<open>accepts\<close>: whether the database accepts the values of an upsert into staging
    (column types and constraints of the table, whose declaration is not part of the
    sources);
  \<^item> \<open>accepts_core\<close>: whether the database accepts a row proposed for \<^verbatim>\<open>core.videos\<close>,
    and \<open>accepts_statistics\<close>: whether it accepts, beside the rows that
    \<^verbatim>\<open>core.video_statistics\<close> holds, the rows to insert (again the column types and
    constraints of tables whose declarations are not part of the sources);
  \<^item> \<open>to_interval\<close>: the cast \<^verbatim>\<open>duration::INTERVAL\<close> (\<open>None\<close>: the cast fails);
  \<^item> \<open>epoch\<close>: \<^verbatim>\<open>EXTRACT(EPOCH FROM ...)\<close> of an interval;
  \<^item> \<open>to_timestamp\<close>: the cast \<^verbatim>\<open>%(date)s::timestamp\<close> (\<open>None\<close>: the cast fails);
  \<^item> \<open>now\<close>: the value of \<^verbatim>\<open>NOW()\<close> in the upsert into \<^verbatim>\<open>core.videos\<close>.
\<close>

record ('i, 't) env =
  to_int :: "string \<Rightarrow> int option"
  read_ok :: bool
  accepts :: "string \<Rightarrow> staging_row \<Rightarrow> bool"
  accepts_core :: "string \<Rightarrow> ('i, 't) core_row \<Rightarrow> bool"
  accepts_statistics :: "'t statistics_row list \<Rightarrow> 't statistics_row list \<Rightarrow> bool"
  to_interval :: "string \<Rightarrow> 'i option"
  epoch :: "'i \<Rightarrow> real"
  to_timestamp :: "string \<Rightarrow> 't option"
  now :: 't

section \<open>\<^verbatim>\<open>sync_to_staging\<close>\<close>

text \<open>
  A Python \<^verbatim>\<open>dict\<close> keeps its keys in the order of their first insertion; storing under
  a key that exists replaces the value in place.
\<close>

fun dict_store :: "'k \<Rightarrow> 'v \<Rightarrow> ('k \<times> 'v) list \<Rightarrow> ('k \<times> 'v) list" where
  "dict_store k v [] = [(k, v)]"
| "dict_store k v ((k', v') # kvs) =
     (if k' = k then (k, v) # kvs else (k', v') # dict_store k v kvs)"

text \<open>
  \<^verbatim>\<open>unique_videos = {v['video_id']: v for v in videos}\<close>: the comprehension stores the
  records from left to right and raises \<^verbatim>\<open>KeyError\<close> at the first record without the
  key.
\<close>

fun unique_videos :: "video list \<Rightarrow> (string \<times> video) list \<Rightarrow> error + (string \<times> video) list" where
  "unique_videos [] acc = Inr acc"
| "unique_videos (v # vs) acc =
     (case video_id v of
        None \<Rightarrow> Inl (KeyError ''video_id'')
      | Some k \<Rightarrow> unique_videos vs (dict_store k v acc))"

text \<open>\<^verbatim>\<open>int(c) if c is not None else 0\<close>; \<^verbatim>\<open>int\<close> of an integer is that integer.\<close>

definition count_param :: "('i, 't) env \<Rightarrow> count option \<Rightarrow> error + int" where
  "count_param e c =
     (case c of
        None \<Rightarrow> Inr 0
      | Some (CInt n) \<Rightarrow> Inr n
      | Some (CStr s) \<Rightarrow> (case to_int e s of None \<Rightarrow> Inl ValueError | Some n \<Rightarrow> Inr n))"

text \<open>Sequencing: an exception ends the evaluation, a value is passed on.\<close>

fun and_then :: "error + 'a \<Rightarrow> ('a \<Rightarrow> error + 'b) \<Rightarrow> error + 'b" where
  "and_then (Inl x) f = Inl x"
| "and_then (Inr a) f = f a"

text \<open>\<^verbatim>\<open>video[key]\<close> for a text field.\<close>

definition subscript :: "string \<Rightarrow> string option \<Rightarrow> error + string" where
  "subscript key field = (case field of None \<Rightarrow> Inl (KeyError key) | Some s \<Rightarrow> Inr s)"

text \<open>
  The \<^verbatim>\<open>parameters\<close> dictionary of one upsert, built entry by entry in the order of the
  source; the first failing entry raises.
\<close>

definition parameters :: "('i, 't) env \<Rightarrow> snapshot \<Rightarrow> video \<Rightarrow> error + string \<times> staging_row" where
  "parameters e data v =
     and_then (subscript ''video_id'' (video_id v)) (\<lambda>vid.
     and_then (subscript ''title'' (title v)) (\<lambda>t.
     and_then (subscript ''published_at'' (published_at v)) (\<lambda>p.
     and_then (subscript ''duration'' (duration v)) (\<lambda>d.
     and_then (subscript ''duration_readable'' (duration_readable v)) (\<lambda>r.
     and_then (count_param e (view_count v)) (\<lambda>vc.
     and_then (count_param e (like_count v)) (\<lambda>lc.
     and_then (count_param e (comment_count v)) (\<lambda>cc.
       Inr (vid,
         \<lparr>s_title = t, s_published_at = p, s_duration = d, s_duration_readable = r,
          s_view_count = vc, s_like_count = lc, s_comment_count = cc,
          s_channel_id = channel_id data, s_channel_handle = channel_handle data,
          s_extraction_date = extraction_date data\<rparr>)))))))))"

text \<open>
  \<^verbatim>\<open>INSERT INTO staging.youtube_videos_raw ... ON CONFLICT (video_id) DO UPDATE SET\<close>
  \<^verbatim>\<open>title, view_count, like_count, comment_count, extraction_date\<close>: a new key is
  inserted with all its values; on a key that exists, the five listed columns take the
  values proposed for insertion.
\<close>

fun upsert_staging :: "string \<Rightarrow> staging_row \<Rightarrow> staging \<Rightarrow> staging" where
  "upsert_staging vid new [] = [(vid, new)]"
| "upsert_staging vid new ((k, old) # rows) =
     (if k = vid
      then (k, old\<lparr>s_title := s_title new,
                   s_view_count := s_view_count new,
                   s_like_count := s_like_count new,
                   s_comment_count := s_comment_count new,
                   s_extraction_date := s_extraction_date new\<rparr>) # rows
      else (k, old) # upsert_staging vid new rows)"

text \<open>
  The loop \<^verbatim>\<open>for video in videos\<close>. Every \<^verbatim>\<open>pg_hook.run\<close> commits on its own, so when
  an iteration raises, the rows written by the earlier iterations stay. The result is
  the table together with the error or the two counters.
\<close>

fun upsert_loop ::
  "('i, 't) env \<Rightarrow> snapshot \<Rightarrow> string list \<Rightarrow> video list \<Rightarrow> staging \<Rightarrow> nat \<Rightarrow> nat
     \<Rightarrow> staging \<times> (error + nat \<times> nat)" where
  "upsert_loop e data existing_ids [] tbl inserted updated = (tbl, Inr (inserted, updated))"
| "upsert_loop e data existing_ids (v # vs) tbl inserted updated =
     (case parameters e data v of
        Inl x \<Rightarrow> (tbl, Inl x)
      | Inr (vid, row) \<Rightarrow>
          if \<not> accepts e vid row then (tbl, Inl DatabaseError)
          else if vid \<in> set existing_ids
          then upsert_loop e data existing_ids vs (upsert_staging vid row tbl) inserted (updated + 1)
          else upsert_loop e data existing_ids vs (upsert_staging vid row tbl) (inserted + 1) updated)"

text \<open>The messages written with \<^verbatim>\<open>logging.info\<close> and \<^verbatim>\<open>logging.warning\<close>.\<close>

datatype log_record =
  Info_unique_videos nat
| Info_existing_in_staging nat
| Warning_cannot_read_existing_ids
| Info_inserted_updated nat nat
| Info_deleted nat

text \<open>
  \<^verbatim>\<open>DELETE FROM staging.youtube_videos_raw WHERE video_id = ANY(%(ids)s)\<close>.
\<close>

definition delete_staging :: "string list \<Rightarrow> staging \<Rightarrow> staging" where
  "delete_staging ids tbl = filter (\<lambda>(k, row). k \<notin> set ids) tbl"

text \<open>
  The task. Python sets are lists without repetition. The result is the staging table
  after the run (also when the run raises), the log, and the exception or the returned
  number \<^verbatim>\<open>len(videos)\<close>.
\<close>

definition sync_to_staging ::
  "('i, 't) env \<Rightarrow> snapshot \<Rightarrow> staging \<Rightarrow> staging \<times> log_record list \<times> (error + nat)" where
  "sync_to_staging e data tbl =
     (case unique_videos (videos data) [] of
        Inl x \<Rightarrow> (tbl, [], Inl x)
      | Inr uniq \<Rightarrow>
          let vids = map snd uniq;
              log1 = [Info_unique_videos (length vids)];
              existing_ids = (if read_ok e then remdups (map fst tbl) else []);
              log2 = log1 @ (if read_ok e then [Info_existing_in_staging (length existing_ids)]
                             else [Warning_cannot_read_existing_ids]);
              json_video_ids = remdups (map fst uniq)
          in (case upsert_loop e data existing_ids vids tbl 0 0 of
                (tbl1, Inl x) \<Rightarrow> (tbl1, log2, Inl x)
              | (tbl1, Inr (inserted, updated)) \<Rightarrow>
                  let log3 = log2 @ [Info_inserted_updated inserted updated];
                      to_delete = filter (\<lambda>k. k \<notin> set json_video_ids) existing_ids
                  in if to_delete \<noteq> []
                     then (delete_staging to_delete tbl1,
                           log3 @ [Info_deleted (length to_delete)],
                           Inr (length vids))
                     else (tbl1, log3, Inr (length vids))))"

section \<open>\<^verbatim>\<open>transform_to_core\<close>\<close>

text \<open>
  The \<^verbatim>\<open>CASE WHEN total_seconds < 60 THEN 'short' ELSE 'long' END\<close> of the upsert into
  \<^verbatim>\<open>core.videos\<close>.
\<close>

definition duration_label :: "real \<Rightarrow> string" where
  "duration_label total_seconds = (if total_seconds < 60 then ''short'' else ''long'')"

text \<open>
  The rows the statement proposes for insertion: the common table expression
  \<^verbatim>\<open>duration_calc\<close> and the \<^verbatim>\<open>SELECT DISTINCT\<close> over it, one row for each staging row
  (under the primary key of staging no two of them are equal). The statement fails as
  a whole when the cast of one \<^verbatim>\<open>duration\<close> fails.
\<close>

fun duration_calc :: "('i, 't) env \<Rightarrow> staging \<Rightarrow> error + ('i, 't) core" where
  "duration_calc e [] = Inr []"
| "duration_calc e ((k, r) # rows) =
     (case to_interval e (s_duration r) of
        None \<Rightarrow> Inl DatabaseError
      | Some iv \<Rightarrow>
          and_then (duration_calc e rows) (\<lambda>rest.
            Inr ((k,
              \<lparr>c_title = s_title r, c_published_at = s_published_at r,
               c_duration = s_duration r, c_duration_readable = s_duration_readable r,
               c_duration_seconds = iv, c_duration_label = duration_label (epoch e iv),
               c_channel_id = s_channel_id r, c_channel_handle = s_channel_handle r,
               c_created_at = now e, c_updated_at = now e\<rparr>) # rest)))"

text \<open>
  \<^verbatim>\<open>ON CONFLICT (video_id) DO UPDATE SET title, duration_seconds, duration_label\<close> from
  the proposed row and \<^verbatim>\<open>updated_at = NOW()\<close>.
\<close>

fun upsert_core :: "('i, 't) env \<Rightarrow> string \<Rightarrow> ('i, 't) core_row \<Rightarrow> ('i, 't) core \<Rightarrow> ('i, 't) core" where
  "upsert_core e vid new [] = [(vid, new)]"
| "upsert_core e vid new ((k, old) # rows) =
     (if k = vid
      then (k, old\<lparr>c_title := c_title new,
                   c_duration_seconds := c_duration_seconds new,
                   c_duration_label := c_duration_label new,
                   c_updated_at := now e\<rparr>) # rows
      else (k, old) # upsert_core e vid new rows)"

definition upsert_core_videos ::
  "('i, 't) env \<Rightarrow> staging \<Rightarrow> ('i, 't) core \<Rightarrow> error + ('i, 't) core" where
  "upsert_core_videos e stg cr =
     and_then (duration_calc e stg) (\<lambda>proposed.
       if list_all (\<lambda>(k, new). accepts_core e k new) proposed
       then Inr (fold (\<lambda>(k, new). upsert_core e k new) proposed cr)
       else Inl DatabaseError)"

text \<open>
  \<^verbatim>\<open>WHERE video_id NOT IN (SELECT video_id FROM staging.youtube_videos_raw)\<close>, used by
  the count and by the \<^verbatim>\<open>DELETE\<close>.
\<close>

definition not_in_staging :: "staging \<Rightarrow> string \<times> 'r \<Rightarrow> bool" where
  "not_in_staging stg = (\<lambda>(k, row). k \<notin> set (map fst stg))"

text \<open>
  \<^verbatim>\<open>INSERT INTO core.video_statistics ... SELECT ..., %(date)s::timestamp FROM staging\<close>:
  one new row for each staging row. The statement fails as a whole when the cast of the
  date fails or the database does not accept the rows.
\<close>

definition insert_statistics ::
  "('i, 't) env \<Rightarrow> string \<Rightarrow> staging \<Rightarrow> 't statistics_row list \<Rightarrow> error + 't statistics_row list" where
  "insert_statistics e date stg stats =
     (case to_timestamp e date of
        None \<Rightarrow> Inl DatabaseError
      | Some ts \<Rightarrow>
          let rows = map (\<lambda>(k, r).
            \<lparr>h_video_id = k, h_view_count = s_view_count r, h_like_count = s_like_count r,
             h_comment_count = s_comment_count r, h_recorded_at = ts\<rparr>) stg
          in if accepts_statistics e stats rows then Inr (stats @ rows)
             else Inl DatabaseError)"

text \<open>
  The task, with \<open>date\<close> the \<^verbatim>\<open>extraction_date\<close> pulled from the previous task. Each
  statement commits on its own: when a later statement raises, the effect of the
  earlier ones stays. The result is the database after the run and the exception or
  the returned count of \<^verbatim>\<open>core.videos\<close>.
\<close>

definition transform_to_core ::
  "('i, 't) env \<Rightarrow> string \<Rightarrow> ('i, 't) database \<Rightarrow> ('i, 't) database \<times> (error + nat)" where
  "transform_to_core e date db =
     (case upsert_core_videos e (staging_tbl db) (core_tbl db) of
        Inl x \<Rightarrow> (db, Inl x)
      | Inr core1 \<Rightarrow>
          let to_delete_core = length (filter (not_in_staging (staging_tbl db)) core1);
              core2 = (if to_delete_core > 0
                       then filter (\<lambda>row. \<not> not_in_staging (staging_tbl db) row) core1
                       else core1);
              db2 = db\<lparr>core_tbl := core2\<rparr>
          in (case insert_statistics e date (staging_tbl db) (statistics_tbl db) of
                Inl x \<Rightarrow> (db2, Inl x)
              | Inr stats \<Rightarrow> (db2\<lparr>statistics_tbl := stats\<rparr>, Inr (length core2))))"

text \<open>
  Successive runs of the task, each with its own environment and date, on the database
  the previous run left; a run that raises stops the sequence.
\<close>

fun transform_runs ::
  "(('i, 't) env \<times> string) list \<Rightarrow> ('i, 't) database \<Rightarrow> ('i, 't) database \<times> (error + nat list)" where
  "transform_runs [] db = (db, Inr [])"
| "transform_runs ((e, date) # runs) db =
     (case transform_to_core e date db of
        (db1, Inl x) \<Rightarrow> (db1, Inl x)
      | (db1, Inr n) \<Rightarrow>
          (case transform_runs runs db1 of
             (db2, Inl x) \<Rightarrow> (db2, Inl x)
           | (db2, Inr ns) \<Rightarrow> (db2, Inr (n # ns))))"

section \<open>The words of the specification\<close>

text \<open>The video ids of a snapshot, in order, with repetitions.\<close>

definition snapshot_ids :: "video list \<Rightarrow> string list" where
  "snapshot_ids vs = concat (map (\<lambda>v. case video_id v of None \<Rightarrow> [] | Some k \<Rightarrow> [k]) vs)"

text \<open>
  The pre-deduplicated snapshot: the sequence that keeps, of the records with one id,
  only the last.
\<close>

fun last_occurrences :: "video list \<Rightarrow> video list" where
  "last_occurrences [] = []"
| "last_occurrences (v # vs) =
     (if video_id v \<in> set (map video_id vs) then last_occurrences vs
      else v # last_occurrences vs)"

text \<open>
  The row a key holds after an upsert into staging, from the row it held before (if
  any) and the row proposed for insertion.
\<close>

definition upserted_row :: "staging_row option \<Rightarrow> staging_row \<Rightarrow> staging_row" where
  "upserted_row before new =
     (case before of
        None \<Rightarrow> new
      | Some old \<Rightarrow> old\<lparr>s_title := s_title new,
                        s_view_count := s_view_count new,
                        s_like_count := s_like_count new,
                        s_comment_count := s_comment_count new,
                        s_extraction_date := s_extraction_date new\<rparr>)"

section \<open>Example data\<close>

text \<open>
  An environment for the examples: \<^verbatim>\<open>int()\<close> on digits, a database that accepts every
  row of staging and of \<^verbatim>\<open>core.videos\<close> and keeps the pairs of \<^verbatim>\<open>video_id\<close> and
  \<^verbatim>\<open>recorded_at\<close> of the statistics distinct, and \<open>iso_to_seconds\<close> for the cast to an
  interval.
\<close>

definition example_env :: "(int, nat) env" where
  "example_env =
     \<lparr>to_int = int_of_digits, read_ok = True, accepts = (\<lambda>vid row. True),
      accepts_core = (\<lambda>vid row. True),
      accepts_statistics =
        (\<lambda>stats rows. distinct (map (\<lambda>s. (h_video_id s, h_recorded_at s)) (stats @ rows))),
      to_interval = iso_to_seconds, epoch = real_of_int,
      to_timestamp = (\<lambda>s. Some (length s)), now = 7\<rparr>"

definition example_video :: "string \<Rightarrow> string \<Rightarrow> string \<Rightarrow> video" where
  "example_video vid t d =
     \<lparr>video_id = Some vid, title = Some t, published_at = Some ''2025-01-01T00:00:00Z'',
      duration = Some d, duration_readable = Some ''0:58'',
      view_count = Some (CStr ''10''), like_count = None, comment_count = Some (CInt 3)\<rparr>"

definition example_snapshot :: "video list \<Rightarrow> snapshot" where
  "example_snapshot vs =
     \<lparr>videos = vs, channel_id = ''UC1'', channel_handle = ''MrBeast'',
      extraction_date = ''2025-10-02T14:00:00''\<rparr>"

definition example_row :: "string \<Rightarrow> staging_row" where
  "example_row t =
     \<lparr>s_title = t, s_published_at = ''2024-12-31T00:00:00Z'', s_duration = ''PT1M'',
      s_duration_readable = ''1:00'', s_view_count = 1, s_like_count = 2,
      s_comment_count = 3, s_channel_id = ''UC0'', s_channel_handle = ''Old'',
      s_extraction_date = ''2025-10-01T14:00:00''\<rparr>"

definition example_core_row :: "string \<Rightarrow> (int, nat) core_row" where
  "example_core_row t =
     \<lparr>c_title = t, c_published_at = ''2024-12-31T00:00:00Z'', c_duration = ''PT1M'',
      c_duration_readable = ''1:00'', c_duration_seconds = 60, c_duration_label = ''long'',
      c_channel_id = ''UC0'', c_channel_handle = ''Old'', c_created_at = 1, c_updated_at = 2\<rparr>"

text \<open>
  Staging holds Y (one minute) and W (58 seconds); core holds X, which is no longer in
  staging, and Y.
\<close>

definition example_database :: "(int, nat) database" where
  "example_database =
     \<lparr>staging_tbl = [(''Y'', example_row ''y''),
                     (''W'', (example_row ''w'')\<lparr>s_duration := ''PT58S''\<rparr>)],
      core_tbl = [(''X'', example_core_row ''x''), (''Y'', example_core_row ''old y'')],
      statistics_tbl = []\<rparr>"

section \<open>Properties of the duration codec\<close>





















text \<open>
  Claim C9. For every integer number of seconds the label is \<^verbatim>\<open>short\<close> exactly when
  the number is below 60 and \<^verbatim>\<open>long\<close> otherwise, in \<open>get_duration_label\<close> and in the
  \<^verbatim>\<open>CASE\<close> of the upsert into \<^verbatim>\<open>core.videos\<close> alike; 59 is \<^verbatim>\<open>short\<close>, 60 is \<^verbatim>\<open>long\<close>,
  0 is \<^verbatim>\<open>short\<close>.
\<close>

theorem classify_boundary:
  "(get_duration_label s = ''short'' \<longleftrightarrow> s < 60)
   \<and> (get_duration_label s = ''long'' \<longleftrightarrow> 60 \<le> s)
   \<and> (duration_label (real_of_int s) = ''short'' \<longleftrightarrow> s < 60)
   \<and> (duration_label (real_of_int s) = ''long'' \<longleftrightarrow> 60 \<le> s)
   \<and> get_duration_label 59 = ''short'' \<and> get_duration_label 60 = ''long''
   \<and> get_duration_label 0 = ''short''
   \<and> duration_label 59 = ''short'' \<and> duration_label 60 = ''long'' \<and> duration_label 0 = ''short''"
  by (auto simp: get_duration_label_def duration_label_def)

section \<open>Properties of the staging synchronisation\<close>

subsection \<open>Deduplication\<close>

lemma dict_store_keys: "fst ` set (dict_store k v kvs) = insert k (fst ` set kvs)"
  by (induction k v kvs rule: dict_store.induct) auto

lemma map_of_dict_store: "map_of (dict_store k v kvs) = (map_of kvs)(k \<mapsto> v)"
  by (induction k v kvs rule: dict_store.induct) (auto simp: fun_eq_iff)

lemma dict_store_distinct: "distinct (map fst kvs) \<Longrightarrow> distinct (map fst (dict_store k v kvs))"
  by (induction k v kvs rule: dict_store.induct) (auto simp: dict_store_keys)

lemma snapshot_ids_Cons:
  "snapshot_ids (v # vs) = (case video_id v of None \<Rightarrow> [] | Some k \<Rightarrow> [k]) @ snapshot_ids vs"
  by (simp add: snapshot_ids_def)

lemma snapshot_ids_Nil: "snapshot_ids [] = []"
  by (simp add: snapshot_ids_def)

lemma set_snapshot_ids: "set (snapshot_ids vs) = {k. \<exists>v \<in> set vs. video_id v = Some k}"
  by (induction vs) (auto simp: snapshot_ids_Nil snapshot_ids_Cons split: option.splits)


lemma unique_videos_all_keys:
  "unique_videos vs acc = Inr u \<Longrightarrow> \<forall>v \<in> set vs. video_id v \<noteq> None"
  by (induction vs arbitrary: acc) (auto split: option.splits)

lemma unique_videos_total:
  "\<forall>v \<in> set vs. video_id v \<noteq> None \<Longrightarrow> \<exists>u. unique_videos vs acc = Inr u"
  by (induction vs arbitrary: acc) (auto split: option.splits)

lemma unique_videos_keys:
  "unique_videos vs acc = Inr u \<Longrightarrow> fst ` set u = fst ` set acc \<union> set (snapshot_ids vs)"
proof (induction vs arbitrary: acc)
  case Nil
  then show ?case by (simp add: snapshot_ids_Nil)
next
  case (Cons v vs)
  then obtain k where k: "video_id v = Some k" and u: "unique_videos vs (dict_store k v acc) = Inr u"
    by (auto split: option.splits)
  from Cons.IH [OF u] show ?case
    by (auto simp: dict_store_keys snapshot_ids_Cons k)
qed

lemma unique_videos_distinct:
  "unique_videos vs acc = Inr u \<Longrightarrow> distinct (map fst acc) \<Longrightarrow> distinct (map fst u)"
  by (induction vs arbitrary: acc) (auto split: option.splits simp: dict_store_distinct)

lemma dict_store_entries:
  "\<forall>(k', v') \<in> set kvs. video_id v' = Some k' \<Longrightarrow> video_id v = Some k
   \<Longrightarrow> \<forall>(k', v') \<in> set (dict_store k v kvs). video_id v' = Some k'"
  by (induction k v kvs rule: dict_store.induct) auto

lemma unique_videos_entries:
  "unique_videos vs acc = Inr u \<Longrightarrow> \<forall>(k, v) \<in> set acc. video_id v = Some k
   \<Longrightarrow> \<forall>(k, v) \<in> set u. video_id v = Some k"
proof (induction vs arbitrary: acc)
  case Nil
  then show ?case by simp
next
  case (Cons v vs)
  then obtain k where k: "video_id v = Some k" and u: "unique_videos vs (dict_store k v acc) = Inr u"
    by (auto split: option.splits)
  show ?case
    by (rule Cons.IH [OF u]) (rule dict_store_entries [OF Cons.prems(2) k])
qed

subsection \<open>The upsert loop\<close>

lemma and_then_Inr:
  "and_then m f = Inr b \<Longrightarrow> \<exists>a. m = Inr a \<and> f a = Inr b"
  by (cases m) auto

lemma subscript_Inr: "subscript key field = Inr s \<Longrightarrow> field = Some s"
  by (auto simp: subscript_def split: option.splits)

lemma parameters_Inr:
  assumes "parameters e data v = Inr (vid, row)"
  shows "video_id v = Some vid" and "title v = Some (s_title row)"
    and "published_at v = Some (s_published_at row)"
    and "duration v = Some (s_duration row)"
    and "duration_readable v = Some (s_duration_readable row)"
    and "count_param e (view_count v) = Inr (s_view_count row)"
    and "count_param e (like_count v) = Inr (s_like_count row)"
    and "count_param e (comment_count v) = Inr (s_comment_count row)"
    and "s_channel_id row = channel_id data"
    and "s_channel_handle row = channel_handle data"
    and "s_extraction_date row = extraction_date data"
  using assms unfolding parameters_def
  by (auto dest!: and_then_Inr subscript_Inr)

lemma upsert_staging_keys:
  "fst ` set (upsert_staging vid new tbl) = insert vid (fst ` set tbl)"
  by (induction vid new tbl rule: upsert_staging.induct) auto

lemma upsert_staging_distinct:
  "distinct (map fst tbl) \<Longrightarrow> distinct (map fst (upsert_staging vid new tbl))"
  by (induction vid new tbl rule: upsert_staging.induct) (auto simp: upsert_staging_keys)

lemma upsert_loop_keys:
  "upsert_loop e data ex vs tbl i u = (tbl1, Inr r)
   \<Longrightarrow> fst ` set tbl1 = fst ` set tbl \<union> set (snapshot_ids vs)"
proof (induction vs arbitrary: tbl i u)
  case Nil
  then show ?case by (simp add: snapshot_ids_Nil)
next
  case (Cons v vs)
  then obtain vid row where p: "parameters e data v = Inr (vid, row)"
    by (auto split: sum.splits)
  then have k: "video_id v = Some vid" by (rule parameters_Inr)
  from Cons.prems p obtain i' u' where
    "upsert_loop e data ex vs (upsert_staging vid row tbl) i' u' = (tbl1, Inr r)"
    by (auto split: if_splits)
  from Cons.IH [OF this] show ?case
    by (auto simp: upsert_staging_keys snapshot_ids_Cons k)
qed

lemma upsert_loop_distinct:
  "upsert_loop e data ex vs tbl i u = (tbl1, res) \<Longrightarrow> distinct (map fst tbl)
   \<Longrightarrow> distinct (map fst tbl1)"
proof (induction vs arbitrary: tbl i u)
  case Nil
  then show ?case by simp
next
  case (Cons v vs)
  show ?case
  proof (cases "parameters e data v")
    case (Inl x)
    with Cons.prems show ?thesis by simp
  next
    case (Inr p)
    obtain vid row where [simp]: "p = (vid, row)" by (cases p)
    show ?thesis
    proof (cases "accepts e vid row")
      case False
      with Cons.prems Inr show ?thesis by simp
    next
      case True
      with Cons.prems Inr obtain i' u' where
        "upsert_loop e data ex vs (upsert_staging vid row tbl) i' u' = (tbl1, res)"
        by (auto split: if_splits)
      then show ?thesis
        by (rule Cons.IH) (simp add: upsert_staging_distinct Cons.prems(2))
    qed
  qed
qed

lemma delete_staging_keys:
  "fst ` set (delete_staging ids tbl) = fst ` set tbl - set ids"
  by (induction tbl) (auto simp: delete_staging_def)

lemma delete_staging_distinct:
  "distinct (map fst tbl) \<Longrightarrow> distinct (map fst (delete_staging ids tbl))"
  by (simp add: delete_staging_def distinct_map_filter)

text \<open>The shape of a run that returns.\<close>

lemma sync_to_staging_returns:
  assumes "sync_to_staging e data tbl = (tbl', lg, Inr n)"
  obtains uniq tbl1 inserted updated where
    "unique_videos (videos data) [] = Inr uniq"
    "upsert_loop e data (if read_ok e then remdups (map fst tbl) else []) (map snd uniq) tbl 0 0
       = (tbl1, Inr (inserted, updated))"
    "tbl' = delete_staging
       (filter (\<lambda>k. k \<notin> fst ` set uniq) (if read_ok e then remdups (map fst tbl) else [])) tbl1"
    "n = length uniq"
proof -
  from assms obtain uniq where u: "unique_videos (videos data) [] = Inr uniq"
    by (auto simp: sync_to_staging_def split: sum.splits)
  let ?ex = "if read_ok e then remdups (map fst tbl) else []"
  obtain tbl1 res where l: "upsert_loop e data ?ex (map snd uniq) tbl 0 0 = (tbl1, res)"
    by (cases "upsert_loop e data ?ex (map snd uniq) tbl 0 0")
  from assms u l obtain inserted updated where r: "res = Inr (inserted, updated)"
    by (cases res) (auto simp: sync_to_staging_def Let_def)
  let ?del = "filter (\<lambda>k. k \<notin> fst ` set uniq) ?ex"
  have "delete_staging [] tbl1 = tbl1" by (simp add: delete_staging_def)
  with assms u l r have "tbl' = delete_staging ?del tbl1" "n = length uniq"
    by (auto simp: sync_to_staging_def Let_def split: if_splits)
  with u l r that show thesis by blast
qed

lemma snapshot_ids_map_snd:
  "\<forall>(k, v) \<in> set u. video_id v = Some k \<Longrightarrow> snapshot_ids (map snd u) = map fst u"
  by (induction u) (auto simp: snapshot_ids_Nil snapshot_ids_Cons)

lemma sync_to_staging_keys:
  assumes "sync_to_staging e data tbl = (tbl', lg, Inr n)"
  shows "fst ` set tbl' =
    (if read_ok e then set (snapshot_ids (videos data))
     else fst ` set tbl \<union> set (snapshot_ids (videos data)))"
proof -
  from assms obtain uniq tbl1 inserted updated where
    u: "unique_videos (videos data) [] = Inr uniq" and
    l: "upsert_loop e data (if read_ok e then remdups (map fst tbl) else []) (map snd uniq) tbl 0 0
       = (tbl1, Inr (inserted, updated))" and
    t: "tbl' = delete_staging
       (filter (\<lambda>k. k \<notin> fst ` set uniq) (if read_ok e then remdups (map fst tbl) else [])) tbl1"
    by (rule sync_to_staging_returns)
  have ids: "fst ` set uniq = set (snapshot_ids (videos data))"
    using unique_videos_keys [OF u] by simp
  have "\<forall>(k, v) \<in> set uniq. video_id v = Some k"
    using unique_videos_entries [OF u] by simp
  then have "snapshot_ids (map snd uniq) = map fst uniq"
    by (rule snapshot_ids_map_snd)
  with upsert_loop_keys [OF l] have "fst ` set tbl1 = fst ` set tbl \<union> fst ` set uniq"
    by simp
  with t ids show ?thesis
    by (auto simp: delete_staging_keys)
qed






text \<open>
  Claim C1, amended. When the read of the existing ids succeeds and the run returns,
  the video ids in staging are exactly the video ids of the snapshot: every incoming id
  is present and every other id has been deleted.
\<close>

theorem reconcile_key_set:
  assumes "read_ok e" and "sync_to_staging e data tbl = (tbl', lg, Inr n)"
  shows "fst ` set tbl' = set (snapshot_ids (videos data))"
  using sync_to_staging_keys [OF assms(2)] assms(1) by simp

lemmas example_defs =
  example_env_def example_snapshot_def example_video_def example_row_def
  sync_to_staging_def parameters_def subscript_def count_param_def delete_staging_def
  int_of_digits_def int_max_str_digits_def is_digit_def digit_value_def snapshot_ids_def
  Let_def

text \<open>
  The run of the scenario: staging holds X and Y, the snapshot holds Y and W.
\<close>

theorem reconcile_key_set_witness:
  "read_ok example_env
   \<and> snd (snd (sync_to_staging example_env
        (example_snapshot [example_video ''Y'' ''t1'' ''PT58S'', example_video ''W'' ''t2'' ''PT1M''])
        [(''X'', example_row ''x''), (''Y'', example_row ''y'')])) = Inr 2
   \<and> fst ` set (fst (sync_to_staging example_env
        (example_snapshot [example_video ''Y'' ''t1'' ''PT58S'', example_video ''W'' ''t2'' ''PT1M''])
        [(''X'', example_row ''x''), (''Y'', example_row ''y'')])) = {''Y'', ''W''}"
proof -
  let ?run = "sync_to_staging example_env
        (example_snapshot [example_video ''Y'' ''t1'' ''PT58S'', example_video ''W'' ''t2'' ''PT1M''])
        [(''X'', example_row ''x''), (''Y'', example_row ''y'')]"
  have r: "read_ok example_env" by (simp add: example_env_def)
  have o: "snd (snd ?run) = Inr 2" by (simp add: example_defs)
  then have "?run = (fst ?run, fst (snd ?run), Inr 2)"
    by (metis prod.collapse)
  from reconcile_key_set [OF r this] have "fst ` set (fst ?run) = {''Y'', ''W''}"
    by (simp add: example_snapshot_def example_video_def snapshot_ids_def)
  with r o show ?thesis by blast
qed

text \<open>
  Claim C1 as stated fails when the read of the existing ids fails: the run returns,
  and the row X, which is not in the snapshot, is still in staging.
\<close>

theorem reconcile_key_set_counterexample:
  "snd (snd (sync_to_staging (example_env\<lparr>read_ok := False\<rparr>)
        (example_snapshot [example_video ''Y'' ''t1'' ''PT58S''])
        [(''X'', example_row ''x'')])) = Inr 1
   \<and> fst ` set (fst (sync_to_staging (example_env\<lparr>read_ok := False\<rparr>)
        (example_snapshot [example_video ''Y'' ''t1'' ''PT58S''])
        [(''X'', example_row ''x'')])) = {''X'', ''Y''}
   \<and> set (snapshot_ids (videos (example_snapshot [example_video ''Y'' ''t1'' ''PT58S'']))) = {''Y''}"
  by (simp add: example_defs)








subsection \<open>Rows after a run\<close>

lemma map_of_upsert_staging:
  "map_of (upsert_staging vid new tbl) = (map_of tbl)(vid \<mapsto> upserted_row (map_of tbl vid) new)"
  by (induction vid new tbl rule: upsert_staging.induct) (auto simp: fun_eq_iff upserted_row_def)

lemma map_of_delete_staging:
  "map_of (delete_staging ids tbl) k = (if k \<in> set ids then None else map_of tbl k)"
  by (induction tbl) (auto simp: delete_staging_def)

lemma upsert_loop_all_accepted:
  "upsert_loop e data ex vs tbl i u = (tbl1, Inr c)
   \<Longrightarrow> \<forall>v \<in> set vs. \<exists>vid row. parameters e data v = Inr (vid, row) \<and> accepts e vid row"
proof (induction vs arbitrary: tbl i u)
  case Nil
  then show ?case by simp
next
  case (Cons v vs)
  then obtain vid row where p: "parameters e data v = Inr (vid, row)"
    by (auto split: sum.splits)
  with Cons.prems have a: "accepts e vid row"
    by (auto split: if_splits)
  from Cons.prems p a obtain i' u' where
    "upsert_loop e data ex vs (upsert_staging vid row tbl) i' u' = (tbl1, Inr c)"
    by (auto split: if_splits)
  from Cons.IH [OF this] p a show ?case by simp
qed

lemma upsert_loop_returns:
  "\<forall>v \<in> set vs. \<exists>vid row. parameters e data v = Inr (vid, row) \<and> accepts e vid row
   \<Longrightarrow> \<exists>tbl1 c. upsert_loop e data ex vs tbl i u = (tbl1, Inr c)"
proof (induction vs arbitrary: tbl i u)
  case Nil
  then show ?case by simp
next
  case (Cons v vs)
  then obtain vid row where p: "parameters e data v = Inr (vid, row)" and a: "accepts e vid row"
    by auto
  from Cons.prems have rest: "\<forall>v \<in> set vs. \<exists>vid row. parameters e data v = Inr (vid, row) \<and> accepts e vid row"
    by simp
  show ?case
    using p a Cons.IH [OF rest] by simp
qed

lemma upsert_loop_other_key:
  "upsert_loop e data ex vs tbl i u = (tbl1, Inr c) \<Longrightarrow> \<forall>v \<in> set vs. video_id v \<noteq> Some k
   \<Longrightarrow> map_of tbl1 k = map_of tbl k"
proof (induction vs arbitrary: tbl i u)
  case Nil
  then show ?case by simp
next
  case (Cons v vs)
  then obtain vid row where p: "parameters e data v = Inr (vid, row)"
    by (auto split: sum.splits)
  then have "video_id v = Some vid" by (rule parameters_Inr)
  with Cons.prems(2) have ne: "vid \<noteq> k" by auto
  from Cons.prems p obtain i' u' where
    l: "upsert_loop e data ex vs (upsert_staging vid row tbl) i' u' = (tbl1, Inr c)"
    by (auto split: if_splits)
  from Cons.prems(2) have "\<forall>v \<in> set vs. video_id v \<noteq> Some k" by simp
  from Cons.IH [OF l this] ne show ?case
    by (simp add: map_of_upsert_staging)
qed

lemma upsert_loop_upserted_key:
  "upsert_loop e data ex vs tbl i u = (tbl1, Inr c) \<Longrightarrow> distinct (map video_id vs)
   \<Longrightarrow> v \<in> set vs \<Longrightarrow> parameters e data v = Inr (k, row)
   \<Longrightarrow> map_of tbl1 k = Some (upserted_row (map_of tbl k) row)"
proof (induction vs arbitrary: tbl i u)
  case Nil
  then show ?case by simp
next
  case (Cons w ws)
  from Cons.prems(1) obtain vid' row' where p: "parameters e data w = Inr (vid', row')"
    by (auto split: sum.splits)
  from Cons.prems(1) p obtain i' u' where
    l: "upsert_loop e data ex ws (upsert_staging vid' row' tbl) i' u' = (tbl1, Inr c)"
    by (auto split: if_splits)
  have kv: "video_id v = Some k" using Cons.prems(4) by (rule parameters_Inr)
  have kw: "video_id w = Some vid'" using p by (rule parameters_Inr)
  from Cons.prems(2) have d: "video_id w \<notin> video_id ` set ws" "distinct (map video_id ws)"
    by simp_all
  show ?case
  proof (cases "v = w")
    case True
    with p Cons.prems(4) have same: "vid' = k" "row' = row" by simp_all
    from d(1) True kv have "\<forall>x \<in> set ws. video_id x \<noteq> Some k" by force
    from upsert_loop_other_key [OF l this] same show ?thesis
      by (simp add: map_of_upsert_staging)
  next
    case False
    with Cons.prems(3) have v: "v \<in> set ws" by simp
    with d(1) kv kw have "vid' \<noteq> k" by force
    with Cons.IH [OF l d(2) v Cons.prems(4)] show ?thesis
      by (simp add: map_of_upsert_staging)
  qed
qed

lemma unique_videos_distinct_ids:
  assumes "unique_videos vs [] = Inr uniq"
  shows "distinct (map video_id (map snd uniq))"
proof -
  have "\<forall>(k, v) \<in> set uniq. video_id v = Some k"
    using unique_videos_entries [OF assms] by simp
  then have "map video_id (map snd uniq) = map Some (map fst uniq)"
    by (induction uniq) auto
  moreover have "distinct (map fst uniq)"
    using unique_videos_distinct [OF assms] by simp
  then have "distinct (map Some (map fst uniq))"
    by (subst distinct_map) simp
  ultimately show ?thesis
    by (simp only:)
qed

text \<open>The row of a key of the snapshot after a run that returns.\<close>

lemma sync_to_staging_row:
  assumes run: "sync_to_staging e data tbl = (tbl', lg, Inr n)"
    and k: "k \<in> set (snapshot_ids (videos data))"
  shows "\<exists>uniq v row. unique_videos (videos data) [] = Inr uniq \<and> map_of uniq k = Some v
    \<and> parameters e data v = Inr (k, row)
    \<and> map_of tbl' k = Some (upserted_row (map_of tbl k) row)"
proof -
  from run obtain uniq tbl1 inserted updated where
    u: "unique_videos (videos data) [] = Inr uniq" and
    l: "upsert_loop e data (if read_ok e then remdups (map fst tbl) else []) (map snd uniq) tbl 0 0
       = (tbl1, Inr (inserted, updated))" and
    t: "tbl' = delete_staging
       (filter (\<lambda>k. k \<notin> fst ` set uniq) (if read_ok e then remdups (map fst tbl) else [])) tbl1"
    by (rule sync_to_staging_returns)
  have ids: "fst ` set uniq = set (snapshot_ids (videos data))"
    using unique_videos_keys [OF u] by simp
  with k obtain v where v: "map_of uniq k = Some v"
    by (metis weak_map_of_SomeI imageE prod.collapse)
  then have mem: "(k, v) \<in> set uniq" by (rule map_of_SomeD)
  have "\<forall>(k, v) \<in> set uniq. video_id v = Some k"
    using unique_videos_entries [OF u] by simp
  with mem have kv: "video_id v = Some k" by auto
  from mem have vs: "v \<in> set (map snd uniq)" by force
  with upsert_loop_all_accepted [OF l] obtain vid row where
    p: "parameters e data v = Inr (vid, row)" by blast
  with kv have "vid = k" using parameters_Inr(1) by fastforce
  with p have p': "parameters e data v = Inr (k, row)" by simp
  have "map_of tbl1 k = Some (upserted_row (map_of tbl k) row)"
    using l unique_videos_distinct_ids [OF u] vs p' by (rule upsert_loop_upserted_key)
  moreover have "map_of tbl' k = map_of tbl1 k"
    using t ids k by (simp add: map_of_delete_staging)
  ultimately show ?thesis using u v p' by simp
qed

lemma dict_store_values: "snd ` set (dict_store k v kvs) \<subseteq> insert v (snd ` set kvs)"
  by (induction k v kvs rule: dict_store.induct) auto

lemma unique_videos_values:
  "unique_videos vs acc = Inr u \<Longrightarrow> snd ` set u \<subseteq> snd ` set acc \<union> set vs"
proof (induction vs arbitrary: acc)
  case Nil
  then show ?case by simp
next
  case (Cons v vs)
  then obtain k where "unique_videos vs (dict_store k v acc) = Inr u"
    by (auto split: option.splits)
  from Cons.IH [OF this] dict_store_values [of k v acc] show ?case
    by auto
qed

text \<open>
  Claim C8. An upsert on a key that staging holds overwrites the title, the three
  counts and the extraction date with the proposed values and leaves every other
  column of the row as it was. So after a run that returns, the row of a key that was
  in staging and is in the snapshot is the old row with the title and the (converted)
  counts of a record of the snapshot with that key and the extraction date of the
  snapshot; duration, readable duration, publication date, channel id and channel
  handle are those of the old row.
\<close>

theorem staging_upsert_frame:
  assumes "map_of tbl k = Some old"
  shows "map_of (upsert_staging k new tbl) k
           = Some (old\<lparr>s_title := s_title new, s_view_count := s_view_count new,
                       s_like_count := s_like_count new, s_comment_count := s_comment_count new,
                       s_extraction_date := s_extraction_date new\<rparr>)
    \<and> (\<forall>tbl' lg n. sync_to_staging e data tbl = (tbl', lg, Inr n)
          \<and> k \<in> set (snapshot_ids (videos data)) \<longrightarrow>
        (\<exists>v t vc lc cc. v \<in> set (videos data) \<and> video_id v = Some k \<and> title v = Some t
          \<and> count_param e (view_count v) = Inr vc \<and> count_param e (like_count v) = Inr lc
          \<and> count_param e (comment_count v) = Inr cc
          \<and> map_of tbl' k
               = Some (old\<lparr>s_title := t, s_view_count := vc, s_like_count := lc,
                           s_comment_count := cc,
                           s_extraction_date := extraction_date data\<rparr>)))"
proof -
  have statement: "map_of (upsert_staging k new tbl) k
           = Some (old\<lparr>s_title := s_title new, s_view_count := s_view_count new,
                       s_like_count := s_like_count new, s_comment_count := s_comment_count new,
                       s_extraction_date := s_extraction_date new\<rparr>)"
    using assms by (simp add: map_of_upsert_staging upserted_row_def)
  have task: "\<exists>v t vc lc cc. v \<in> set (videos data) \<and> video_id v = Some k \<and> title v = Some t
          \<and> count_param e (view_count v) = Inr vc \<and> count_param e (like_count v) = Inr lc
          \<and> count_param e (comment_count v) = Inr cc
          \<and> map_of tbl' k
               = Some (old\<lparr>s_title := t, s_view_count := vc, s_like_count := lc,
                           s_comment_count := cc,
                           s_extraction_date := extraction_date data\<rparr>)"
    if run: "sync_to_staging e data tbl = (tbl', lg, Inr n)"
      and k: "k \<in> set (snapshot_ids (videos data))" for tbl' lg n
  proof -
    from sync_to_staging_row [OF run k] obtain uniq v row where
      u: "unique_videos (videos data) [] = Inr uniq" and v: "map_of uniq k = Some v" and
      p: "parameters e data v = Inr (k, row)" and
      r: "map_of tbl' k = Some (upserted_row (map_of tbl k) row)"
      by blast
    from v have "v \<in> snd ` set uniq"
      by (metis map_of_SomeD image_eqI snd_conv)
    with unique_videos_values [OF u] have mem: "v \<in> set (videos data)" by auto
    from r assms have "map_of tbl' k
        = Some (old\<lparr>s_title := s_title row, s_view_count := s_view_count row,
                    s_like_count := s_like_count row, s_comment_count := s_comment_count row,
                    s_extraction_date := extraction_date data\<rparr>)"
      by (simp add: upserted_row_def parameters_Inr(11) [OF p])
    with mem parameters_Inr(1,2,6,7,8) [OF p] show ?thesis by blast
  qed
  from statement task show ?thesis by blast
qed

text \<open>
  The scenario run: Y was in staging and is in the snapshot.
\<close>

theorem staging_upsert_frame_witness:
  "map_of [(''X'', example_row ''x''), (''Y'', example_row ''y'')] ''Y'' = Some (example_row ''y'')
   \<and> sync_to_staging example_env
        (example_snapshot [example_video ''Y'' ''t1'' ''PT58S'', example_video ''W'' ''t2'' ''PT1M''])
        [(''X'', example_row ''x''), (''Y'', example_row ''y'')]
      = ([(''Y'', (example_row ''y'')\<lparr>s_title := ''t1'', s_view_count := 10, s_like_count := 0,
                    s_comment_count := 3, s_extraction_date := ''2025-10-02T14:00:00''\<rparr>),
          (''W'', \<lparr>s_title = ''t2'', s_published_at = ''2025-01-01T00:00:00Z'',
                  s_duration = ''PT1M'', s_duration_readable = ''0:58'',
                  s_view_count = 10, s_like_count = 0, s_comment_count = 3,
                  s_channel_id = ''UC1'', s_channel_handle = ''MrBeast'',
                  s_extraction_date = ''2025-10-02T14:00:00''\<rparr>)],
         [Info_unique_videos 2, Info_existing_in_staging 2, Info_inserted_updated 1 1,
          Info_deleted 1],
         Inr 2)
   \<and> ''Y'' \<in> set (snapshot_ids (videos
        (example_snapshot [example_video ''Y'' ''t1'' ''PT58S'', example_video ''W'' ''t2'' ''PT1M''])))
   \<and> (\<exists>v t vc lc cc. v \<in> set (videos
          (example_snapshot [example_video ''Y'' ''t1'' ''PT58S'', example_video ''W'' ''t2'' ''PT1M'']))
        \<and> video_id v = Some ''Y'' \<and> title v = Some t
        \<and> count_param example_env (view_count v) = Inr vc
        \<and> count_param example_env (like_count v) = Inr lc
        \<and> count_param example_env (comment_count v) = Inr cc
        \<and> Some ((example_row ''y'')\<lparr>s_title := ''t1'', s_view_count := 10, s_like_count := 0,
                    s_comment_count := 3, s_extraction_date := ''2025-10-02T14:00:00''\<rparr>)
           = Some ((example_row ''y'')\<lparr>s_title := t, s_view_count := vc, s_like_count := lc,
                    s_comment_count := cc,
                    s_extraction_date := extraction_date
                      (example_snapshot [example_video ''Y'' ''t1'' ''PT58S'',
                                         example_video ''W'' ''t2'' ''PT1M''])\<rparr>))"
proof -
  let ?d = "example_snapshot [example_video ''Y'' ''t1'' ''PT58S'', example_video ''W'' ''t2'' ''PT1M'']"
  let ?t = "[(''X'', example_row ''x''), (''Y'', example_row ''y'')]"
  have h: "map_of ?t ''Y'' = Some (example_row ''y'')" by simp
  have run: "sync_to_staging example_env ?d ?t
      = ([(''Y'', (example_row ''y'')\<lparr>s_title := ''t1'', s_view_count := 10, s_like_count := 0,
                    s_comment_count := 3, s_extraction_date := ''2025-10-02T14:00:00''\<rparr>),
          (''W'', \<lparr>s_title = ''t2'', s_published_at = ''2025-01-01T00:00:00Z'',
                  s_duration = ''PT1M'', s_duration_readable = ''0:58'',
                  s_view_count = 10, s_like_count = 0, s_comment_count = 3,
                  s_channel_id = ''UC1'', s_channel_handle = ''MrBeast'',
                  s_extraction_date = ''2025-10-02T14:00:00''\<rparr>)],
         [Info_unique_videos 2, Info_existing_in_staging 2, Info_inserted_updated 1 1,
          Info_deleted 1],
         Inr 2)"
    by (simp add: example_defs)
  have k: "''Y'' \<in> set (snapshot_ids (videos ?d))"
    by (simp add: example_snapshot_def example_video_def snapshot_ids_def)
  from staging_upsert_frame [OF h, of "example_row ''z''" example_env ?d] run k
  show ?thesis
    using h by simp
qed

subsection \<open>Deduplication keeps the last occurrence\<close>

lemma last_occurrences_ids: "video_id ` set (last_occurrences vs) = video_id ` set vs"
  by (induction vs) auto

lemma last_occurrences_subset: "set (last_occurrences vs) \<subseteq> set vs"
  by (induction vs) auto

lemma last_occurrences_distinct: "distinct (map video_id (last_occurrences vs))"
proof (induction vs)
  case Nil
  show ?case by simp
next
  case (Cons v vs)
  have "video_id v \<notin> video_id ` set vs \<Longrightarrow> video_id v \<notin> video_id ` set (last_occurrences vs)"
    by (simp add: last_occurrences_ids)
  with Cons show ?case by simp
qed

lemma last_occurrences_of_distinct:
  "distinct (map video_id vs) \<Longrightarrow> last_occurrences vs = vs"
  by (induction vs) auto

lemma snapshot_ids_last_occurrences:
  "set (snapshot_ids (last_occurrences vs)) = set (snapshot_ids vs)"
proof -
  have "set (snapshot_ids ws) = {k. Some k \<in> video_id ` set ws}" for ws
    by (auto simp: set_snapshot_ids) force
  then show ?thesis by (simp add: last_occurrences_ids)
qed

lemma find_last_occurrences_None:
  "Some k \<notin> video_id ` set vs \<Longrightarrow> find (\<lambda>v. video_id v = Some k) (last_occurrences vs) = None"
proof -
  assume "Some k \<notin> video_id ` set vs"
  then have "Some k \<notin> video_id ` set (last_occurrences vs)"
    by (simp add: last_occurrences_ids)
  then show ?thesis
    by (force simp: find_None_iff)
qed

lemma find_last_occurrences_Some:
  "Some k \<in> video_id ` set vs \<Longrightarrow> \<exists>w. find (\<lambda>v. video_id v = Some k) (last_occurrences vs) = Some w"
proof -
  assume "Some k \<in> video_id ` set vs"
  then have "Some k \<in> video_id ` set (last_occurrences vs)"
    by (simp add: last_occurrences_ids)
  then have "find (\<lambda>v. video_id v = Some k) (last_occurrences vs) \<noteq> None"
    by (auto simp: find_None_iff)
  then show ?thesis by blast
qed

lemma unique_videos_map_of:
  "unique_videos vs acc = Inr u
   \<Longrightarrow> map_of u k = (case find (\<lambda>v. video_id v = Some k) (last_occurrences vs) of
                       Some v \<Rightarrow> Some v
                     | None \<Rightarrow> map_of acc k)"
proof (induction vs arbitrary: acc)
  case Nil
  then show ?case by simp
next
  case (Cons v vs)
  then obtain kv where kv: "video_id v = Some kv"
    and u: "unique_videos vs (dict_store kv v acc) = Inr u"
    by (auto split: option.splits)
  let ?f = "find (\<lambda>v. video_id v = Some k)"
  note ih = Cons.IH [OF u]
  show ?case
  proof (cases "video_id v \<in> video_id ` set vs")
    case True
    then have lo: "last_occurrences (v # vs) = last_occurrences vs" by simp
    show ?thesis
    proof (cases "k = kv")
      case same: True
      with True kv obtain w where "?f (last_occurrences vs) = Some w"
        using find_last_occurrences_Some [of k vs] by auto
      with ih lo show ?thesis by simp
    next
      case False
      with ih lo show ?thesis
        by (simp add: map_of_dict_store split: option.splits)
    qed
  next
    case False
    then have lo: "last_occurrences (v # vs) = v # last_occurrences vs" by simp
    show ?thesis
    proof (cases "k = kv")
      case True
      with False kv have "?f (last_occurrences vs) = None"
        using find_last_occurrences_None [of k vs] by simp
      with ih lo True kv show ?thesis
        by (simp add: map_of_dict_store)
    next
      case ne: False
      with kv have "video_id v \<noteq> Some k" by simp
      with ih lo ne show ?thesis
        by (simp add: map_of_dict_store split: option.splits)
    qed
  qed
qed

lemma unique_videos_find:
  "unique_videos vs [] = Inr u
   \<Longrightarrow> map_of u k = find (\<lambda>v. video_id v = Some k) (last_occurrences vs)"
  by (drule unique_videos_map_of [where k = k]) (simp split: option.splits)

lemma find_distinct_ids:
  assumes "distinct (map video_id ws)" and "v \<in> set ws" and "video_id v = Some k"
  shows "find (\<lambda>v. video_id v = Some k) ws = Some v"
  using assms
proof (induction ws)
  case Nil
  then show ?case by simp
next
  case (Cons w ws)
  show ?case
  proof (cases "v = w")
    case True
    with Cons.prems show ?thesis by simp
  next
    case False
    with Cons.prems have "v \<in> set ws" "video_id w \<noteq> video_id v"
      by force+
    with Cons show ?thesis by simp
  qed
qed

lemma unique_videos_values_last:
  assumes "unique_videos vs [] = Inr u"
  shows "set (map snd u) = set (last_occurrences vs)"
proof (intro equalityI subsetI)
  fix v
  assume "v \<in> set (map snd u)"
  then obtain k where "(k, v) \<in> set u" by auto
  moreover have "distinct (map fst u)"
    using unique_videos_distinct [OF assms] by simp
  ultimately have "map_of u k = Some v" by simp
  then have "find (\<lambda>v. video_id v = Some k) (last_occurrences vs) = Some v"
    by (simp add: unique_videos_find [OF assms])
  then show "v \<in> set (last_occurrences vs)"
    by (auto simp: find_Some_iff)
next
  fix v
  assume v: "v \<in> set (last_occurrences vs)"
  with last_occurrences_subset have "v \<in> set vs" by blast
  with unique_videos_all_keys [OF assms] obtain k where k: "video_id v = Some k" by auto
  have "find (\<lambda>v. video_id v = Some k) (last_occurrences vs) = Some v"
    using last_occurrences_distinct v k by (rule find_distinct_ids)
  then have "map_of u k = Some v"
    by (simp add: unique_videos_find [OF assms])
  then have "(k, v) \<in> set u" by (rule map_of_SomeD)
  then show "v \<in> set (map snd u)" by force
qed

lemma parameters_videos_update:
  "parameters e (data\<lparr>videos := ws\<rparr>) v = parameters e data v"
  by (simp add: parameters_def)

lemma upsert_loop_videos_update:
  "upsert_loop e (data\<lparr>videos := ws\<rparr>) ex vs tbl i u = upsert_loop e data ex vs tbl i u"
  by (induction vs arbitrary: tbl i u)
    (simp_all add: parameters_videos_update split: sum.splits prod.splits)

lemma sync_to_staging_returnsI:
  assumes "unique_videos (videos data) [] = Inr uniq"
    and "upsert_loop e data (if read_ok e then remdups (map fst tbl) else []) (map snd uniq) tbl 0 0
       = (tbl1, Inr c)"
  shows "\<exists>lg. sync_to_staging e data tbl =
    (delete_staging
       (filter (\<lambda>k. k \<notin> fst ` set uniq) (if read_ok e then remdups (map fst tbl) else [])) tbl1,
     lg, Inr (length uniq))"
proof -
  have "delete_staging [] tbl1 = tbl1" by (simp add: delete_staging_def)
  with assms show ?thesis
    by (cases c) (auto simp: sync_to_staging_def Let_def)
qed

lemma upsert_loop_same_records:
  assumes l1: "upsert_loop e data ex vs tbl i u = (t1, Inr c1)"
    and l2: "upsert_loop e data ex' ws tbl i' u' = (t2, Inr c2)"
    and same: "set ws = set vs"
    and d1: "distinct (map video_id vs)" and d2: "distinct (map video_id ws)"
  shows "map_of t2 = map_of t1"
proof
  fix k
  show "map_of t2 k = map_of t1 k"
  proof (cases "\<exists>v \<in> set vs. video_id v = Some k")
    case True
    then obtain v where v: "v \<in> set vs" "video_id v = Some k" by blast
    with upsert_loop_all_accepted [OF l1] obtain vid row where
      p: "parameters e data v = Inr (vid, row)" by blast
    with v(2) have "vid = k" using parameters_Inr(1) by fastforce
    with p have p': "parameters e data v = Inr (k, row)" by simp
    from v(1) same have v': "v \<in> set ws" by simp
    have "map_of t1 k = Some (upserted_row (map_of tbl k) row)"
      using l1 d1 v(1) p' by (rule upsert_loop_upserted_key)
    moreover have "map_of t2 k = Some (upserted_row (map_of tbl k) row)"
      using l2 d2 v' p' by (rule upsert_loop_upserted_key)
    ultimately show ?thesis by simp
  next
    case False
    then have n1: "\<forall>v \<in> set vs. video_id v \<noteq> Some k" by blast
    with same have n2: "\<forall>v \<in> set ws. video_id v \<noteq> Some k" by simp
    from upsert_loop_other_key [OF l1 n1] upsert_loop_other_key [OF l2 n2]
    show ?thesis by simp
  qed
qed

text \<open>
  Claim C6. Let a run on a snapshot return, on a staging table whose keys are distinct
  (its primary key). Then the run on the pre-deduplicated snapshot, which keeps of each
  id only the last record, returns the same number and leaves a table with the same
  rows. And the last occurrence wins: for every id of the snapshot, the row of that id
  after the run is the upsert of the parameters of a record among the last occurrences.
\<close>

theorem reconcile_deduplicates_last_wins:
  assumes run: "sync_to_staging e data tbl = (tbl1, lg1, Inr n)"
    and pk: "distinct (map fst tbl)"
  shows "(\<exists>tbl2 lg2.
            sync_to_staging e (data\<lparr>videos := last_occurrences (videos data)\<rparr>) tbl
              = (tbl2, lg2, Inr n)
            \<and> set tbl2 = set tbl1 \<and> distinct (map fst tbl1) \<and> distinct (map fst tbl2))
    \<and> (\<forall>k \<in> set (snapshot_ids (videos data)).
          \<exists>v row. v \<in> set (last_occurrences (videos data)) \<and> video_id v = Some k
            \<and> parameters e data v = Inr (k, row)
            \<and> map_of tbl1 k = Some (upserted_row (map_of tbl k) row))"
proof -
  let ?vs = "videos data"
  let ?data' = "data\<lparr>videos := last_occurrences ?vs\<rparr>"
  let ?ex = "if read_ok e then remdups (map fst tbl) else []"
  from run obtain uniq t1 inserted updated where
    u: "unique_videos ?vs [] = Inr uniq" and
    l: "upsert_loop e data ?ex (map snd uniq) tbl 0 0 = (t1, Inr (inserted, updated))" and
    t: "tbl1 = delete_staging (filter (\<lambda>k. k \<notin> fst ` set uniq) ?ex) t1" and
    n: "n = length uniq"
    by (rule sync_to_staging_returns)
  have last_wins: "\<exists>v row. v \<in> set (last_occurrences ?vs) \<and> video_id v = Some k
            \<and> parameters e data v = Inr (k, row)
            \<and> map_of tbl1 k = Some (upserted_row (map_of tbl k) row)"
    if k: "k \<in> set (snapshot_ids ?vs)" for k
  proof -
    from sync_to_staging_row [OF run k] u obtain v row where
      v: "map_of uniq k = Some v" and p: "parameters e data v = Inr (k, row)" and
      r: "map_of tbl1 k = Some (upserted_row (map_of tbl k) row)"
      by auto
    from v have "find (\<lambda>v. video_id v = Some k) (last_occurrences ?vs) = Some v"
      by (simp add: unique_videos_find [OF u])
    then have "v \<in> set (last_occurrences ?vs)"
      by (auto simp: find_Some_iff)
    with p r parameters_Inr(1) [OF p] show ?thesis by blast
  qed
  have "\<forall>v \<in> set (last_occurrences ?vs). video_id v \<noteq> None"
    using unique_videos_all_keys [OF u] last_occurrences_subset by blast
  then obtain uniq2 where u2: "unique_videos (videos ?data') [] = Inr uniq2"
    using unique_videos_total [of "last_occurrences ?vs" "[]"] by auto
  then have u2': "unique_videos (last_occurrences ?vs) [] = Inr uniq2" by simp
  have "last_occurrences (last_occurrences ?vs) = last_occurrences ?vs"
    using last_occurrences_distinct by (rule last_occurrences_of_distinct)
  with unique_videos_values_last [OF u2'] unique_videos_values_last [OF u]
  have same: "set (map snd uniq2) = set (map snd uniq)" by simp
  have keys: "fst ` set uniq2 = fst ` set uniq"
    using unique_videos_keys [OF u2'] unique_videos_keys [OF u]
    by (simp add: snapshot_ids_last_occurrences)
  from upsert_loop_all_accepted [OF l] same
  have "\<forall>v \<in> set (map snd uniq2). \<exists>vid row. parameters e data v = Inr (vid, row) \<and> accepts e vid row"
    by simp
  then obtain t2 c2 where "upsert_loop e data ?ex (map snd uniq2) tbl 0 0 = (t2, Inr c2)"
    using upsert_loop_returns by blast
  then have l2: "upsert_loop e data ?ex (map snd uniq2) tbl 0 0 = (t2, Inr c2)"
    and l2': "upsert_loop e ?data' ?ex (map snd uniq2) tbl 0 0 = (t2, Inr c2)"
    by (simp_all add: upsert_loop_videos_update)
  from sync_to_staging_returnsI [OF u2 l2'] keys obtain lg2 where
    run2: "sync_to_staging e ?data' tbl
      = (delete_staging (filter (\<lambda>k. k \<notin> fst ` set uniq) ?ex) t2, lg2, Inr (length uniq2))"
    by auto
  let ?tbl2 = "delete_staging (filter (\<lambda>k. k \<notin> fst ` set uniq) ?ex) t2"
  have "map_of t2 = map_of t1"
    using l l2 same unique_videos_distinct_ids [OF u] unique_videos_distinct_ids [OF u2']
    by (rule upsert_loop_same_records)
  then have maps: "map_of ?tbl2 = map_of tbl1"
    by (simp add: t fun_eq_iff map_of_delete_staging)
  have d1: "distinct (map fst tbl1)"
    unfolding t using upsert_loop_distinct [OF l pk] by (rule delete_staging_distinct)
  have d2: "distinct (map fst ?tbl2)"
    using upsert_loop_distinct [OF l2 pk] by (rule delete_staging_distinct)
  from maps d1 d2 have sets: "set ?tbl2 = set tbl1"
    by (simp add: map_of_inject_set)
  have "distinct (map fst uniq)" "distinct (map fst uniq2)"
    using unique_videos_distinct [OF u] unique_videos_distinct [OF u2'] by simp_all
  then have "length (map fst uniq) = card (fst ` set uniq)"
    "length (map fst uniq2) = card (fst ` set uniq2)"
    using distinct_card by fastforce+
  with keys n have len: "length uniq2 = n" by simp
  from run2 len sets d1 d2 last_wins show ?thesis by blast
qed

text \<open>
  A snapshot with Y twice: the run keeps the title of the later record, and the run on
  the two last occurrences leaves the same two rows.
\<close>

theorem reconcile_deduplicates_last_wins_witness:
  "sync_to_staging example_env
     (example_snapshot [example_video ''Y'' ''t1'' ''PT58S'', example_video ''W'' ''t2'' ''PT1M'',
                        example_video ''Y'' ''t3'' ''PT5S''])
     [(''X'', example_row ''x''), (''Y'', example_row ''y'')]
   = ([(''Y'', (example_row ''y'')\<lparr>s_title := ''t3'', s_view_count := 10, s_like_count := 0,
                 s_comment_count := 3, s_extraction_date := ''2025-10-02T14:00:00''\<rparr>),
       (''W'', \<lparr>s_title = ''t2'', s_published_at = ''2025-01-01T00:00:00Z'',
               s_duration = ''PT1M'', s_duration_readable = ''0:58'',
               s_view_count = 10, s_like_count = 0, s_comment_count = 3,
               s_channel_id = ''UC1'', s_channel_handle = ''MrBeast'',
               s_extraction_date = ''2025-10-02T14:00:00''\<rparr>)],
      [Info_unique_videos 2, Info_existing_in_staging 2, Info_inserted_updated 1 1,
       Info_deleted 1],
      Inr 2)
   \<and> distinct (map fst [(''X'', example_row ''x''), (''Y'', example_row ''y'')])
   \<and> last_occurrences [example_video ''Y'' ''t1'' ''PT58S'', example_video ''W'' ''t2'' ''PT1M'',
                         example_video ''Y'' ''t3'' ''PT5S'']
       = [example_video ''W'' ''t2'' ''PT1M'', example_video ''Y'' ''t3'' ''PT5S'']
   \<and> (\<exists>tbl2 lg2.
         sync_to_staging example_env
           (example_snapshot [example_video ''W'' ''t2'' ''PT1M'', example_video ''Y'' ''t3'' ''PT5S''])
           [(''X'', example_row ''x''), (''Y'', example_row ''y'')]
         = (tbl2, lg2, Inr 2)
         \<and> set tbl2
           = {(''Y'', (example_row ''y'')\<lparr>s_title := ''t3'', s_view_count := 10, s_like_count := 0,
                 s_comment_count := 3, s_extraction_date := ''2025-10-02T14:00:00''\<rparr>),
              (''W'', \<lparr>s_title = ''t2'', s_published_at = ''2025-01-01T00:00:00Z'',
               s_duration = ''PT1M'', s_duration_readable = ''0:58'',
               s_view_count = 10, s_like_count = 0, s_comment_count = 3,
               s_channel_id = ''UC1'', s_channel_handle = ''MrBeast'',
               s_extraction_date = ''2025-10-02T14:00:00''\<rparr>)})
   \<and> ''Y'' \<in> set (snapshot_ids [example_video ''Y'' ''t1'' ''PT58S'',
          example_video ''W'' ''t2'' ''PT1M'', example_video ''Y'' ''t3'' ''PT5S''])
   \<and> (\<exists>v (row :: staging_row). v \<in> {example_video ''W'' ''t2'' ''PT1M'', example_video ''Y'' ''t3'' ''PT5S''}
         \<and> video_id v = Some ''Y'' \<and> s_title row = ''t3'')"
proof -
  let ?vs = "[example_video ''Y'' ''t1'' ''PT58S'', example_video ''W'' ''t2'' ''PT1M'',
              example_video ''Y'' ''t3'' ''PT5S'']"
  let ?t = "[(''X'', example_row ''x''), (''Y'', example_row ''y'')]"
  let ?r = "[(''Y'', (example_row ''y'')\<lparr>s_title := ''t3'', s_view_count := 10, s_like_count := 0,
                 s_comment_count := 3, s_extraction_date := ''2025-10-02T14:00:00''\<rparr>),
       (''W'', \<lparr>s_title = ''t2'', s_published_at = ''2025-01-01T00:00:00Z'',
               s_duration = ''PT1M'', s_duration_readable = ''0:58'',
               s_view_count = 10, s_like_count = 0, s_comment_count = 3,
               s_channel_id = ''UC1'', s_channel_handle = ''MrBeast'',
               s_extraction_date = ''2025-10-02T14:00:00''\<rparr>)]"
  have run: "sync_to_staging example_env (example_snapshot ?vs) ?t
      = (?r, [Info_unique_videos 2, Info_existing_in_staging 2, Info_inserted_updated 1 1,
              Info_deleted 1], Inr 2)"
    by (simp add: example_defs)
  have pk: "distinct (map fst ?t)" by simp
  have lo: "last_occurrences ?vs
       = [example_video ''W'' ''t2'' ''PT1M'', example_video ''Y'' ''t3'' ''PT5S'']"
    by (simp add: example_video_def)
  have upd: "(example_snapshot ?vs)\<lparr>videos := last_occurrences ?vs\<rparr>
       = example_snapshot [example_video ''W'' ''t2'' ''PT1M'', example_video ''Y'' ''t3'' ''PT5S'']"
    by (simp only: lo) (simp add: example_snapshot_def)
  have vs: "videos (example_snapshot ?vs) = ?vs"
    by (simp add: example_snapshot_def)
  have k: "''Y'' \<in> set (snapshot_ids ?vs)"
    by (simp add: example_video_def snapshot_ids_def)
  note inst = reconcile_deduplicates_last_wins [OF run pk, unfolded upd vs]
  from inst [THEN conjunct1] have first: "\<exists>tbl2 lg2.
         sync_to_staging example_env
           (example_snapshot [example_video ''W'' ''t2'' ''PT1M'', example_video ''Y'' ''t3'' ''PT5S''])
           ?t = (tbl2, lg2, Inr 2) \<and> set tbl2 = set ?r"
  proof (elim exE conjE)
    fix tbl2 lg2
    assume a: "sync_to_staging example_env
           (example_snapshot [example_video ''W'' ''t2'' ''PT1M'', example_video ''Y'' ''t3'' ''PT5S''])
           ?t = (tbl2, lg2, Inr 2)" and b: "set tbl2 = set ?r"
    show ?thesis
      by (intro exI conjI) (rule a, rule b)
  qed
  from inst [THEN conjunct2, rule_format, OF k] obtain v row where
    v: "v \<in> set (last_occurrences ?vs)" "video_id v = Some ''Y''" and
    row: "map_of ?r ''Y'' = Some (upserted_row (map_of ?t ''Y'') row)"
    by (elim exE conjE)
  from row have title: "s_title row = ''t3''"
    by (simp add: upserted_row_def example_row_def)
  from v(1) lo have mem: "v \<in> {example_video ''W'' ''t2'' ''PT1M'', example_video ''Y'' ''t3'' ''PT5S''}"
    by simp
  have second: "\<exists>v (row :: staging_row). v \<in> {example_video ''W'' ''t2'' ''PT1M'', example_video ''Y'' ''t3'' ''PT5S''}
         \<and> video_id v = Some ''Y'' \<and> s_title row = ''t3''"
  proof (intro exI conjI)
    show "v \<in> {example_video ''W'' ''t2'' ''PT1M'', example_video ''Y'' ''t3'' ''PT5S''}"
      by (rule mem)
    show "video_id v = Some ''Y''" by (rule v(2))
    show "s_title row = ''t3''" by (rule title)
  qed
  have third: "set ?r = {(''Y'', (example_row ''y'')\<lparr>s_title := ''t3'', s_view_count := 10, s_like_count := 0,
                 s_comment_count := 3, s_extraction_date := ''2025-10-02T14:00:00''\<rparr>),
              (''W'', \<lparr>s_title = ''t2'', s_published_at = ''2025-01-01T00:00:00Z'',
               s_duration = ''PT1M'', s_duration_readable = ''0:58'',
               s_view_count = 10, s_like_count = 0, s_comment_count = 3,
               s_channel_id = ''UC1'', s_channel_handle = ''MrBeast'',
               s_extraction_date = ''2025-10-02T14:00:00''\<rparr>)}"
    by (simp only: list.set)
  show ?thesis
    by (intro conjI) (rule run, rule pk, rule lo, rule first [unfolded third], rule k [unfolded vs], rule second)
qed

section \<open>Properties of the transformation\<close>

lemma duration_calc_keys:
  "duration_calc e stg = Inr rows \<Longrightarrow> map fst rows = map fst stg"
proof (induction e stg arbitrary: rows rule: duration_calc.induct)
  case (1 e)
  then show ?case by simp
next
  case (2 e k r stg)
  from "2.prems" obtain iv where iv: "to_interval e (s_duration r) = Some iv"
    by (auto split: option.splits)
  with "2.prems" obtain rest where rest: "duration_calc e stg = Inr rest" and "fst ` set rows = fst ` set rows"
    by (auto dest!: and_then_Inr)
  with "2.prems" iv have "map fst rows = k # map fst rest" by auto
  with "2.IH" [OF iv rest] show ?case by simp
qed

lemma duration_calc_returns:
  "\<forall>(k, r) \<in> set stg. to_interval e (s_duration r) \<noteq> None
   \<Longrightarrow> \<exists>rows. duration_calc e stg = Inr rows"
  by (induction e stg rule: duration_calc.induct) auto

lemma duration_calc_all_cast:
  "duration_calc e stg = Inr rows \<Longrightarrow> \<forall>(k, r) \<in> set stg. to_interval e (s_duration r) \<noteq> None"
proof (induction e stg arbitrary: rows rule: duration_calc.induct)
  case (1 e)
  then show ?case by simp
next
  case (2 e k r stg)
  from "2.prems" obtain iv where iv: "to_interval e (s_duration r) = Some iv"
    by (auto split: option.splits)
  with "2.prems" obtain rest where rest: "duration_calc e stg = Inr rest"
    by (auto dest!: and_then_Inr)
  from "2.IH" [OF iv rest] iv show ?case by simp
qed

lemma duration_calc_row:
  "duration_calc e stg = Inr rows \<Longrightarrow> (k, new) \<in> set rows
   \<Longrightarrow> \<exists>r iv. (k, r) \<in> set stg \<and> to_interval e (s_duration r) = Some iv
        \<and> new = \<lparr>c_title = s_title r, c_published_at = s_published_at r,
               c_duration = s_duration r, c_duration_readable = s_duration_readable r,
               c_duration_seconds = iv, c_duration_label = duration_label (epoch e iv),
               c_channel_id = s_channel_id r, c_channel_handle = s_channel_handle r,
               c_created_at = now e, c_updated_at = now e\<rparr>"
proof (induction e stg arbitrary: rows rule: duration_calc.induct)
  case (1 e)
  then show ?case by simp
next
  case (2 e k' r' stg)
  from "2.prems"(1) obtain iv where iv: "to_interval e (s_duration r') = Some iv"
    by (auto split: option.splits)
  with "2.prems"(1) obtain rest where rest: "duration_calc e stg = Inr rest"
    by (auto dest!: and_then_Inr)
  let ?new = "\<lparr>c_title = s_title r', c_published_at = s_published_at r',
               c_duration = s_duration r', c_duration_readable = s_duration_readable r',
               c_duration_seconds = iv, c_duration_label = duration_label (epoch e iv),
               c_channel_id = s_channel_id r', c_channel_handle = s_channel_handle r',
               c_created_at = now e, c_updated_at = now e\<rparr>"
  from "2.prems"(1) iv rest have rows: "rows = (k', ?new) # rest" by simp
  show ?case
  proof (cases "(k, new) = (k', ?new)")
    case True
    with iv show ?thesis by auto
  next
    case False
    with rows "2.prems"(2) have "(k, new) \<in> set rest" by auto
    from "2.IH" [OF iv rest this] show ?thesis by auto
  qed
qed

lemma upsert_core_keys:
  "fst ` set (upsert_core e vid new cr) = insert vid (fst ` set cr)"
  by (induction e vid new cr rule: upsert_core.induct) auto

lemma fold_upsert_core_keys:
  "fst ` set (fold (\<lambda>(k, new). upsert_core e k new) rows cr) = fst ` set cr \<union> fst ` set rows"
proof (induction rows arbitrary: cr)
  case Nil
  show ?case by simp
next
  case (Cons p rows)
  obtain k new where p: "p = (k, new)" by (cases p)
  have "fst ` set (fold (\<lambda>(k, new). upsert_core e k new) (p # rows) cr)
      = fst ` set (upsert_core e k new cr) \<union> fst ` set rows"
    using Cons.IH [of "upsert_core e k new cr"] by (simp add: p)
  also have "\<dots> = insert k (fst ` set cr) \<union> fst ` set rows"
    by (simp only: upsert_core_keys)
  finally show ?case by (simp add: p)
qed

lemma map_of_upsert_core:
  "map_of (upsert_core e vid new cr) =
     (map_of cr)(vid \<mapsto> (case map_of cr vid of
        None \<Rightarrow> new
      | Some old \<Rightarrow> old\<lparr>c_title := c_title new, c_duration_seconds := c_duration_seconds new,
                      c_duration_label := c_duration_label new, c_updated_at := now e\<rparr>))"
  by (induction e vid new cr rule: upsert_core.induct) (auto simp: fun_eq_iff)

lemma fold_upsert_core_other_key:
  "k \<notin> fst ` set rows
   \<Longrightarrow> map_of (fold (\<lambda>(k, new). upsert_core e k new) rows cr) k = map_of cr k"
  by (induction rows arbitrary: cr) (auto simp: map_of_upsert_core)

lemma fold_upsert_core_upserted_key:
  "distinct (map fst rows) \<Longrightarrow> (k, new) \<in> set rows
   \<Longrightarrow> map_of (fold (\<lambda>(k, new). upsert_core e k new) rows cr) k =
       Some (case map_of cr k of
          None \<Rightarrow> new
        | Some old \<Rightarrow> old\<lparr>c_title := c_title new, c_duration_seconds := c_duration_seconds new,
                        c_duration_label := c_duration_label new, c_updated_at := now e\<rparr>)"
proof (induction rows arbitrary: cr)
  case Nil
  then show ?case by simp
next
  case (Cons p rows)
  obtain k' new' where p: "p = (k', new')" by (cases p)
  show ?case
  proof (cases "(k, new) = (k', new')")
    case True
    then have same: "k' = k" "new' = new" by simp_all
    with Cons.prems p have "k \<notin> fst ` set rows" by auto
    from fold_upsert_core_other_key [OF this] show ?thesis
      unfolding p same by (simp add: map_of_upsert_core)
  next
    case False
    with Cons.prems p have mem: "(k, new) \<in> set rows" and d: "distinct (map fst rows)" by auto
    from mem Cons.prems(1) p have "k' \<noteq> k" by force
    with Cons.IH [OF d mem] p show ?thesis
      by (simp add: map_of_upsert_core)
  qed
qed

lemma map_of_filter_in_staging:
  "map_of (filter (\<lambda>row. \<not> not_in_staging stg row) cr) k
     = (if k \<in> fst ` set stg then map_of cr k else None)"
  by (induction cr) (force simp: not_in_staging_def)+

lemma filter_in_staging_keys:
  "fst ` set (filter (\<lambda>row. \<not> not_in_staging stg row) cr) = fst ` set cr \<inter> fst ` set stg"
  by (force simp: not_in_staging_def)

lemma filter_not_in_staging_none:
  "length (filter (not_in_staging stg) cr) = 0 \<Longrightarrow> filter (\<lambda>row. \<not> not_in_staging stg row) cr = cr"
  by (induction cr) (auto split: if_splits)

text \<open>The shape of a run of the transformation.\<close>

lemma transform_to_core_core:
  assumes "upsert_core_videos e (staging_tbl db) (core_tbl db) = Inr core1"
    and "transform_to_core e date db = (db', res)"
  shows "core_tbl db' = filter (\<lambda>row. \<not> not_in_staging (staging_tbl db) row) core1"
    and "staging_tbl db' = staging_tbl db"
proof -
  let ?n = "length (filter (not_in_staging (staging_tbl db)) core1)"
  have "(if 0 < ?n then filter (\<lambda>row. \<not> not_in_staging (staging_tbl db) row) core1 else core1)
      = filter (\<lambda>row. \<not> not_in_staging (staging_tbl db) row) core1"
    using filter_not_in_staging_none [of "staging_tbl db" core1] by auto
  with assms show "core_tbl db' = filter (\<lambda>row. \<not> not_in_staging (staging_tbl db) row) core1"
    by (auto simp: transform_to_core_def Let_def split: sum.splits)
  from assms show "staging_tbl db' = staging_tbl db"
    by (auto simp: transform_to_core_def Let_def split: sum.splits)
qed

lemma transform_to_core_returns:
  assumes "transform_to_core e date db = (db', Inr n)"
  obtains proposed ts where
    "duration_calc e (staging_tbl db) = Inr proposed"
    "upsert_core_videos e (staging_tbl db) (core_tbl db)
       = Inr (fold (\<lambda>(k, new). upsert_core e k new) proposed (core_tbl db))"
    "to_timestamp e date = Some ts"
    "statistics_tbl db' = statistics_tbl db @ map (\<lambda>(k, r).
            \<lparr>h_video_id = k, h_view_count = s_view_count r, h_like_count = s_like_count r,
             h_comment_count = s_comment_count r, h_recorded_at = ts\<rparr>) (staging_tbl db)"
    "n = length (core_tbl db')"
proof -
  from assms obtain core1 where c: "upsert_core_videos e (staging_tbl db) (core_tbl db) = Inr core1"
    by (auto simp: transform_to_core_def split: sum.splits)
  then obtain proposed where p: "duration_calc e (staging_tbl db) = Inr proposed"
    and c1: "core1 = fold (\<lambda>(k, new). upsert_core e k new) proposed (core_tbl db)"
    by (auto simp: upsert_core_videos_def dest!: and_then_Inr split: if_splits)
  from assms c obtain stats where
    s: "insert_statistics e date (staging_tbl db) (statistics_tbl db) = Inr stats"
    by (auto simp: transform_to_core_def Let_def split: sum.splits)
  then obtain ts where ts: "to_timestamp e date = Some ts"
    by (auto simp: insert_statistics_def split: option.splits)
  from assms c s have "statistics_tbl db' = stats" "n = length (core_tbl db')"
    by (auto simp: transform_to_core_def Let_def)
  with s ts have "statistics_tbl db' = statistics_tbl db @ map (\<lambda>(k, r).
            \<lparr>h_video_id = k, h_view_count = s_view_count r, h_like_count = s_like_count r,
             h_comment_count = s_comment_count r, h_recorded_at = ts\<rparr>) (staging_tbl db)"
    and "n = length (core_tbl db')"
    by (auto simp: insert_statistics_def Let_def split: if_splits)
  with p c c1 ts that show thesis by blast
qed

lemma transform_to_core_returnsI:
  assumes "duration_calc e (staging_tbl db) = Inr proposed"
    and "list_all (\<lambda>(k, new). accepts_core e k new) proposed"
    and "insert_statistics e date (staging_tbl db) (statistics_tbl db) = Inr stats"
  shows "\<exists>db' n. transform_to_core e date db = (db', Inr n)"
proof -
  from assms(1,2) have
    "\<exists>core1. upsert_core_videos e (staging_tbl db) (core_tbl db) = Inr core1"
    by (simp add: upsert_core_videos_def)
  with assms(3) show ?thesis
    by (auto simp: transform_to_core_def Let_def)
qed

lemmas example_transform_defs =
  example_env_def example_database_def example_row_def example_core_row_def
  transform_to_core_def upsert_core_videos_def insert_statistics_def not_in_staging_def
  duration_label_def iso_to_seconds_def component_def match_here_def
  int_of_digits_def int_max_str_digits_def is_digit_def digit_value_def Let_def

lemma example_transform_run:
  "transform_to_core example_env ''2025-10-02T14:00:00'' example_database
   = (\<lparr>staging_tbl = [(''Y'', example_row ''y''),
                        (''W'', (example_row ''w'')\<lparr>s_duration := ''PT58S''\<rparr>)],
        core_tbl =
          [(''Y'', (example_core_row ''old y'')\<lparr>c_title := ''y'', c_updated_at := 7\<rparr>),
           (''W'', \<lparr>c_title = ''w'', c_published_at = ''2024-12-31T00:00:00Z'',
                   c_duration = ''PT58S'', c_duration_readable = ''1:00'',
                   c_duration_seconds = 58, c_duration_label = ''short'',
                   c_channel_id = ''UC0'', c_channel_handle = ''Old'',
                   c_created_at = 7, c_updated_at = 7\<rparr>)],
        statistics_tbl =
          [\<lparr>h_video_id = ''Y'', h_view_count = 1, h_like_count = 2,
            h_comment_count = 3, h_recorded_at = 19\<rparr>,
           \<lparr>h_video_id = ''W'', h_view_count = 1, h_like_count = 2,
            h_comment_count = 3, h_recorded_at = 19\<rparr>]\<rparr>,
      Inr 2)"
  by (simp add: example_transform_defs)

text \<open>
  Claim C3. After a run of the transformation that returns, every key of \<^verbatim>\<open>core.videos\<close>
  is a key of staging: a key that is not in staging is not in core. The run does not
  change staging, and core then has exactly the keys of staging.
\<close>

theorem core_keys_subset_staging:
  assumes "transform_to_core e date db = (db', Inr n)"
  shows "fst ` set (core_tbl db') \<subseteq> fst ` set (staging_tbl db')
    \<and> (\<forall>k. k \<notin> fst ` set (staging_tbl db') \<longrightarrow> k \<notin> fst ` set (core_tbl db'))
    \<and> fst ` set (core_tbl db') = fst ` set (staging_tbl db)
    \<and> staging_tbl db' = staging_tbl db"
proof -
  from assms obtain proposed where
    p: "duration_calc e (staging_tbl db) = Inr proposed" and
    c: "upsert_core_videos e (staging_tbl db) (core_tbl db)
       = Inr (fold (\<lambda>(k, new). upsert_core e k new) proposed (core_tbl db))"
    by (rule transform_to_core_returns)
  let ?core1 = "fold (\<lambda>(k, new). upsert_core e k new) proposed (core_tbl db)"
  have core: "core_tbl db' = filter (\<lambda>row. \<not> not_in_staging (staging_tbl db) row) ?core1"
    and stg: "staging_tbl db' = staging_tbl db"
    using transform_to_core_core [OF c assms] by simp_all
  have "fst ` set proposed = fst ` set (staging_tbl db)"
    using duration_calc_keys [OF p] by (metis set_map)
  then have "fst ` set ?core1 = fst ` set (core_tbl db) \<union> fst ` set (staging_tbl db)"
    by (simp add: fold_upsert_core_keys)
  then have keys: "fst ` set (core_tbl db') = fst ` set (staging_tbl db)"
    unfolding core filter_in_staging_keys by blast
  with stg show ?thesis by simp
qed

text \<open>
  On the example database the run returns; X, which core held and staging does not
  hold, is gone from core.
\<close>

theorem core_keys_subset_staging_witness:
  "snd (transform_to_core example_env ''2025-10-02T14:00:00'' example_database) = Inr 2
   \<and> ''X'' \<in> fst ` set (core_tbl example_database)
   \<and> ''X'' \<notin> fst ` set (staging_tbl
        (fst (transform_to_core example_env ''2025-10-02T14:00:00'' example_database)))
   \<and> ''X'' \<notin> fst ` set (core_tbl
        (fst (transform_to_core example_env ''2025-10-02T14:00:00'' example_database)))
   \<and> fst ` set (core_tbl
        (fst (transform_to_core example_env ''2025-10-02T14:00:00'' example_database)))
       = {''Y'', ''W''}"
proof -
  let ?run = "transform_to_core example_env ''2025-10-02T14:00:00'' example_database"
  have o: "snd ?run = Inr 2"
    by (simp only: example_transform_run snd_conv)
  then have r: "?run = (fst ?run, Inr 2)"
    by (metis prod.collapse)
  have x: "''X'' \<in> fst ` set (core_tbl example_database)"
    by (simp add: example_database_def)
  have s: "staging_tbl example_database
      = [(''Y'', example_row ''y''), (''W'', (example_row ''w'')\<lparr>s_duration := ''PT58S''\<rparr>)]"
    by (simp add: example_database_def)
  note inst = core_keys_subset_staging [OF r]
  from inst have stg: "staging_tbl (fst ?run) = staging_tbl example_database"
    by (elim conjE)
  from inst have keys: "fst ` set (core_tbl (fst ?run)) = fst ` set (staging_tbl example_database)"
    by (elim conjE)
  have a: "''X'' \<notin> fst ` set (staging_tbl (fst ?run))"
    unfolding stg s by simp
  from inst a have b: "''X'' \<notin> fst ` set (core_tbl (fst ?run))"
    by (elim conjE allE [of _ "''X''"] impE)
  have c: "fst ` set (core_tbl (fst ?run)) = {''Y'', ''W''}"
    unfolding keys s by simp
  show ?thesis
    by (intro conjI) (rule o, rule x, rule a, rule b, rule c)
qed

lemma core_keys_staging_unchanged:
  assumes "transform_to_core e date db = (db', res)"
  shows "staging_tbl db' = staging_tbl db"
  using assms by (auto simp: transform_to_core_def Let_def split: sum.splits)

lemma transform_to_core_statistics_prefix:
  "prefix (statistics_tbl db) (statistics_tbl (fst (transform_to_core e date db)))"
  by (auto simp: transform_to_core_def insert_statistics_def Let_def
      split: sum.splits option.splits if_splits)

lemma transform_runs_statistics_prefix:
  "prefix (statistics_tbl db) (statistics_tbl (fst (transform_runs runs db)))"
proof (induction runs arbitrary: db)
  case Nil
  show ?case by simp
next
  case (Cons run runs)
  obtain e date where run: "run = (e, date)" by (cases run)
  obtain db1 res where t: "transform_to_core e date db = (db1, res)"
    by (cases "transform_to_core e date db")
  have first: "prefix (statistics_tbl db) (statistics_tbl db1)"
    using transform_to_core_statistics_prefix [of db e date] t by simp
  show ?case
  proof (cases res)
    case (Inl x)
    with run t first show ?thesis by simp
  next
    case (Inr n)
    have "fst (transform_runs (run # runs) db) = fst (transform_runs runs db1)"
      using run t Inr by (auto split: prod.splits sum.splits)
    with first Cons.IH [of db1] show ?thesis
      by (metis prefix_order.order_trans)
  qed
qed

lemma statistics_rows_of_key:
  "distinct (map fst stg) \<Longrightarrow> k \<in> fst ` set stg
   \<Longrightarrow> length (filter (\<lambda>s. h_video_id s = k)
         (map (\<lambda>(k, r). \<lparr>h_video_id = k, h_view_count = s_view_count r,
                  h_like_count = s_like_count r, h_comment_count = s_comment_count r,
                  h_recorded_at = ts\<rparr>) stg)) = 1"
proof (induction stg)
  case Nil
  then show ?case by simp
next
  case (Cons p stg)
  obtain k' r where p: "p = (k', r)" by (cases p)
  show ?case
  proof (cases "k' = k")
    case True
    with Cons.prems p have "k \<notin> fst ` set stg" by auto
    then have "filter (\<lambda>s. h_video_id s = k)
         (map (\<lambda>(k, r). \<lparr>h_video_id = k, h_view_count = s_view_count r,
                  h_like_count = s_like_count r, h_comment_count = s_comment_count r,
                  h_recorded_at = ts\<rparr>) stg) = []"
      by (force simp: filter_empty_conv)
    with True p show ?thesis by simp
  next
    case False
    with Cons p show ?thesis by auto
  qed
qed

lemma transform_runs_statistics_count:
  "transform_runs runs db = (db', Inr ns) \<Longrightarrow> distinct (map fst (staging_tbl db))
   \<Longrightarrow> k \<in> fst ` set (staging_tbl db)
   \<Longrightarrow> length (filter (\<lambda>s. h_video_id s = k) (statistics_tbl db'))
       = length (filter (\<lambda>s. h_video_id s = k) (statistics_tbl db)) + length runs
     \<and> length ns = length runs \<and> staging_tbl db' = staging_tbl db"
proof (induction runs arbitrary: db ns)
  case Nil
  then show ?case by simp
next
  case (Cons run runs)
  obtain e date where run: "run = (e, date)" by (cases run)
  from Cons.prems(1) run obtain db1 n ns' where
    t: "transform_to_core e date db = (db1, Inr n)" and
    rest: "transform_runs runs db1 = (db', Inr ns')" and ns: "ns = n # ns'"
    by (auto split: prod.splits sum.splits)
  from t obtain ts where
    stats: "statistics_tbl db1 = statistics_tbl db @ map (\<lambda>(k, r).
            \<lparr>h_video_id = k, h_view_count = s_view_count r, h_like_count = s_like_count r,
             h_comment_count = s_comment_count r, h_recorded_at = ts\<rparr>) (staging_tbl db)"
    by (rule transform_to_core_returns)
  have stg: "staging_tbl db1 = staging_tbl db"
    using core_keys_staging_unchanged [OF t] .
  have one: "length (filter (\<lambda>s. h_video_id s = k) (statistics_tbl db1))
      = length (filter (\<lambda>s. h_video_id s = k) (statistics_tbl db)) + 1"
    unfolding stats using statistics_rows_of_key [OF Cons.prems(2,3), of ts] by simp
  from Cons.IH [OF rest] Cons.prems(2,3) stg one ns show ?case by simp
qed

text \<open>
  Claim C2. Whatever the outcome of a run, the statistics it finds stay as they are, at
  the front of the table. A run that returns has appended, after them, one row for
  each staging row, with the counts of that row and with \<^verbatim>\<open>recorded_at\<close> the timestamp
  of the run's date. So after any number of successive runs that return, over a staging
  table with distinct keys, the history holds for each video in staging as many more
  rows as there were runs.
\<close>

theorem statistics_append_only:
  "prefix (statistics_tbl db) (statistics_tbl (fst (transform_to_core e date db)))
   \<and> (\<forall>db' n. transform_to_core e date db = (db', Inr n) \<longrightarrow>
        (\<exists>ts. to_timestamp e date = Some ts
           \<and> statistics_tbl db' = statistics_tbl db @ map (\<lambda>(k, r).
                \<lparr>h_video_id = k, h_view_count = s_view_count r, h_like_count = s_like_count r,
                 h_comment_count = s_comment_count r, h_recorded_at = ts\<rparr>) (staging_tbl db)))
   \<and> (\<forall>runs db' ns k. transform_runs runs db = (db', Inr ns)
          \<and> distinct (map fst (staging_tbl db)) \<and> k \<in> fst ` set (staging_tbl db) \<longrightarrow>
        prefix (statistics_tbl db) (statistics_tbl db')
        \<and> length (filter (\<lambda>s. h_video_id s = k) (statistics_tbl db'))
          = length (filter (\<lambda>s. h_video_id s = k) (statistics_tbl db)) + length runs)"
proof -
  have single: "\<exists>ts. to_timestamp e date = Some ts
           \<and> statistics_tbl db' = statistics_tbl db @ map (\<lambda>(k, r).
                \<lparr>h_video_id = k, h_view_count = s_view_count r, h_like_count = s_like_count r,
                 h_comment_count = s_comment_count r, h_recorded_at = ts\<rparr>) (staging_tbl db)"
    if "transform_to_core e date db = (db', Inr n)" for db' n
    using that by (rule transform_to_core_returns) blast
  have many: "prefix (statistics_tbl db) (statistics_tbl db')
        \<and> length (filter (\<lambda>s. h_video_id s = k) (statistics_tbl db'))
          = length (filter (\<lambda>s. h_video_id s = k) (statistics_tbl db)) + length runs"
    if "transform_runs runs db = (db', Inr ns)" "distinct (map fst (staging_tbl db))"
      "k \<in> fst ` set (staging_tbl db)" for runs db' ns k
    using transform_runs_statistics_count [OF that] transform_runs_statistics_prefix [of db runs] that(1)
    by simp
  from transform_to_core_statistics_prefix single many show ?thesis
    by blast
qed

text \<open>
  One run, then two runs, on the example database, whose history is empty: two rows
  at the run's timestamp, and two rows for Y after two runs.
\<close>

theorem statistics_append_only_witness:
  "snd (transform_to_core example_env ''2025-10-02T14:00:00'' example_database) = Inr 2
   \<and> to_timestamp example_env ''2025-10-02T14:00:00'' = Some 19
   \<and> statistics_tbl (fst (transform_to_core example_env ''2025-10-02T14:00:00'' example_database))
       = [\<lparr>h_video_id = ''Y'', h_view_count = 1, h_like_count = 2,
            h_comment_count = 3, h_recorded_at = 19\<rparr>,
          \<lparr>h_video_id = ''W'', h_view_count = 1, h_like_count = 2,
            h_comment_count = 3, h_recorded_at = 19\<rparr>]
   \<and> snd (transform_runs [(example_env, ''2025-10-02T14:00:00''),
                           (example_env\<lparr>now := 9\<rparr>, ''2025-10-03T14:00:00Z'')]
          example_database) = Inr [2, 2]
   \<and> distinct (map fst (staging_tbl example_database))
   \<and> ''Y'' \<in> fst ` set (staging_tbl example_database)
   \<and> length (filter (\<lambda>s. h_video_id s = ''Y'')
        (statistics_tbl (fst (transform_runs [(example_env, ''2025-10-02T14:00:00''),
                           (example_env\<lparr>now := 9\<rparr>, ''2025-10-03T14:00:00Z'')]
          example_database)))) = 2"
proof -
  let ?one = "transform_to_core example_env ''2025-10-02T14:00:00'' example_database"
  let ?runs = "[(example_env, ''2025-10-02T14:00:00''),
                (example_env\<lparr>now := 9\<rparr>, ''2025-10-03T14:00:00Z'')]"
  let ?two = "transform_runs ?runs example_database"
  have o1: "snd ?one = Inr 2"
    by (simp only: example_transform_run snd_conv)
  then have r1: "?one = (fst ?one, Inr 2)"
    by (metis prod.collapse)
  have ts: "to_timestamp example_env ''2025-10-02T14:00:00'' = Some 19"
    by (simp add: example_env_def)
  have o2: "snd ?two = Inr [2, 2]"
    by (simp add: example_transform_defs)
  then have r2: "?two = (fst ?two, Inr [2, 2])"
    by (metis prod.collapse)
  have d: "distinct (map fst (staging_tbl example_database))"
    by (simp add: example_database_def)
  have k: "''Y'' \<in> fst ` set (staging_tbl example_database)"
    by (simp add: example_database_def)
  have empty: "statistics_tbl example_database = []"
    by (simp add: example_database_def)
  have stg: "staging_tbl example_database
      = [(''Y'', example_row ''y''), (''W'', (example_row ''w'')\<lparr>s_duration := ''PT58S''\<rparr>)]"
    by (simp add: example_database_def)
  note inst = statistics_append_only [of example_database example_env "''2025-10-02T14:00:00''"]
  from inst [THEN conjunct2, THEN conjunct1, rule_format, OF r1] ts
  have s1: "statistics_tbl (fst ?one)
       = [\<lparr>h_video_id = ''Y'', h_view_count = 1, h_like_count = 2,
            h_comment_count = 3, h_recorded_at = 19\<rparr>,
          \<lparr>h_video_id = ''W'', h_view_count = 1, h_like_count = 2,
            h_comment_count = 3, h_recorded_at = 19\<rparr>]"
    by (auto simp: empty stg example_row_def)
  from inst [THEN conjunct2, THEN conjunct2, rule_format, of ?runs "fst ?two" "[2, 2]" "''Y''"] r2 d k
  have s2: "length (filter (\<lambda>s. h_video_id s = ''Y'') (statistics_tbl (fst ?two))) = 2"
    by (simp add: empty)
  show ?thesis
    by (intro conjI) (rule o1, rule ts, rule s1, rule o2, rule d, rule k, rule s2)
qed

lemma fold_upsert_core_created_at:
  "map_of cr k = Some c \<Longrightarrow> c_created_at c = t
   \<Longrightarrow> \<exists>c'. map_of (fold (\<lambda>(k, new). upsert_core e k new) rows cr) k = Some c'
         \<and> c_created_at c' = t"
proof (induction rows arbitrary: cr c)
  case Nil
  then show ?case by simp
next
  case (Cons p rows)
  obtain k' new where p: "p = (k', new)" by (cases p)
  from Cons.prems obtain c1 where
    "map_of (upsert_core e k' new cr) k = Some c1" "c_created_at c1 = t"
    by (cases "k' = k") (auto simp: map_of_upsert_core)
  from Cons.IH [OF this] p show ?case by simp
qed

lemma transform_to_core_created_at:
  assumes run: "transform_to_core e date db = (db', Inr n)"
    and old: "map_of (core_tbl db) k = Some old"
    and k: "k \<in> fst ` set (staging_tbl db)"
  shows "\<exists>c. map_of (core_tbl db') k = Some c \<and> c_created_at c = c_created_at old"
proof -
  from run obtain proposed where
    c: "upsert_core_videos e (staging_tbl db) (core_tbl db)
       = Inr (fold (\<lambda>(k, new). upsert_core e k new) proposed (core_tbl db))"
    by (rule transform_to_core_returns)
  let ?core1 = "fold (\<lambda>(k, new). upsert_core e k new) proposed (core_tbl db)"
  have "core_tbl db' = filter (\<lambda>row. \<not> not_in_staging (staging_tbl db) row) ?core1"
    using transform_to_core_core(1) [OF c run] .
  with k have "map_of (core_tbl db') k = map_of ?core1 k"
    by (simp add: map_of_filter_in_staging)
  with fold_upsert_core_created_at [OF old refl, of e proposed] show ?thesis by simp
qed

lemma transform_runs_created_at:
  "transform_runs runs db = (db', Inr ns) \<Longrightarrow> map_of (core_tbl db) k = Some old
   \<Longrightarrow> k \<in> fst ` set (staging_tbl db)
   \<Longrightarrow> \<exists>c. map_of (core_tbl db') k = Some c \<and> c_created_at c = c_created_at old"
proof (induction runs arbitrary: db ns old)
  case Nil
  then show ?case by simp
next
  case (Cons run runs)
  obtain e date where run: "run = (e, date)" by (cases run)
  from Cons.prems(1) run obtain db1 n ns' where
    t: "transform_to_core e date db = (db1, Inr n)" and
    rest: "transform_runs runs db1 = (db', Inr ns')"
    by (auto split: prod.splits sum.splits)
  from transform_to_core_created_at [OF t Cons.prems(2,3)] obtain c1 where
    c1: "map_of (core_tbl db1) k = Some c1" "c_created_at c1 = c_created_at old"
    by blast
  have "k \<in> fst ` set (staging_tbl db1)"
    using core_keys_staging_unchanged [OF t] Cons.prems(3) by simp
  from Cons.IH [OF rest c1(1) this] c1(2) show ?case by simp
qed

lemma transform_to_core_row:
  assumes run: "transform_to_core e date db = (db', Inr n)"
    and pk: "distinct (map fst (staging_tbl db))"
    and r: "map_of (staging_tbl db) k = Some r"
  shows "\<exists>iv. to_interval e (s_duration r) = Some iv
    \<and> map_of (core_tbl db') k = Some (case map_of (core_tbl db) k of
        None \<Rightarrow>
          \<lparr>c_title = s_title r, c_published_at = s_published_at r,
           c_duration = s_duration r, c_duration_readable = s_duration_readable r,
           c_duration_seconds = iv, c_duration_label = duration_label (epoch e iv),
           c_channel_id = s_channel_id r, c_channel_handle = s_channel_handle r,
           c_created_at = now e, c_updated_at = now e\<rparr>
      | Some old \<Rightarrow>
          old\<lparr>c_title := s_title r, c_duration_seconds := iv,
              c_duration_label := duration_label (epoch e iv), c_updated_at := now e\<rparr>)"
proof -
  from run obtain proposed where
    p: "duration_calc e (staging_tbl db) = Inr proposed" and
    c: "upsert_core_videos e (staging_tbl db) (core_tbl db)
       = Inr (fold (\<lambda>(k, new). upsert_core e k new) proposed (core_tbl db))"
    by (rule transform_to_core_returns)
  let ?core1 = "fold (\<lambda>(k, new). upsert_core e k new) proposed (core_tbl db)"
  from r have mem: "(k, r) \<in> set (staging_tbl db)" by (rule map_of_SomeD)
  then have k: "k \<in> fst ` set (staging_tbl db)" by force
  have keys: "map fst proposed = map fst (staging_tbl db)"
    using p by (rule duration_calc_keys)
  with pk have dp: "distinct (map fst proposed)" by simp
  from keys k have "k \<in> fst ` set proposed" by (metis set_map)
  then obtain new where new: "(k, new) \<in> set proposed" by auto
  from duration_calc_row [OF p new] obtain r' iv where
    r': "(k, r') \<in> set (staging_tbl db)" and iv: "to_interval e (s_duration r') = Some iv" and
    row: "new = \<lparr>c_title = s_title r', c_published_at = s_published_at r',
               c_duration = s_duration r', c_duration_readable = s_duration_readable r',
               c_duration_seconds = iv, c_duration_label = duration_label (epoch e iv),
               c_channel_id = s_channel_id r', c_channel_handle = s_channel_handle r',
               c_created_at = now e, c_updated_at = now e\<rparr>"
    by blast
  from pk r' r have same: "r' = r" by simp
  have "core_tbl db' = filter (\<lambda>row. \<not> not_in_staging (staging_tbl db) row) ?core1"
    using transform_to_core_core(1) [OF c run] .
  with k have "map_of (core_tbl db') k = map_of ?core1 k"
    by (simp add: map_of_filter_in_staging)
  also have "\<dots> = Some (case map_of (core_tbl db) k of
          None \<Rightarrow> new
        | Some old \<Rightarrow> old\<lparr>c_title := c_title new, c_duration_seconds := c_duration_seconds new,
                        c_duration_label := c_duration_label new, c_updated_at := now e\<rparr>)"
    using dp new by (rule fold_upsert_core_upserted_key)
  finally show ?thesis
    using iv same by (auto simp: row split: option.splits)
qed

text \<open>
  Claim C5. An upsert on a key that \<^verbatim>\<open>core.videos\<close> holds replaces the title, the
  interval, the label and \<^verbatim>\<open>updated_at\<close> and leaves every other column, \<^verbatim>\<open>created_at\<close>
  among them, as it was. So after a run that returns, over a staging table with distinct
  keys, the row of a key that core held is the old row with the title of the staging
  row, the interval and the label of its duration and \<^verbatim>\<open>updated_at\<close> the time of the
  run; the row of a key that core did not hold has \<^verbatim>\<open>created_at\<close> the time of the run.
  And through any number of successive runs that return, a key that stays in staging
  keeps the \<^verbatim>\<open>created_at\<close> it had.
\<close>

theorem core_upsert_frame:
  "(\<forall>old. map_of cr k = Some old \<longrightarrow>
      map_of (upsert_core e k new cr) k
        = Some (old\<lparr>c_title := c_title new, c_duration_seconds := c_duration_seconds new,
                    c_duration_label := c_duration_label new, c_updated_at := now e\<rparr>))
   \<and> (\<forall>db' n r old. transform_to_core e date db = (db', Inr n)
          \<and> distinct (map fst (staging_tbl db)) \<and> map_of (staging_tbl db) k = Some r
          \<and> map_of (core_tbl db) k = Some old \<longrightarrow>
        (\<exists>iv. to_interval e (s_duration r) = Some iv
          \<and> map_of (core_tbl db') k
            = Some (old\<lparr>c_title := s_title r, c_duration_seconds := iv,
                        c_duration_label := duration_label (epoch e iv),
                        c_updated_at := now e\<rparr>)))
   \<and> (\<forall>db' n r. transform_to_core e date db = (db', Inr n)
          \<and> distinct (map fst (staging_tbl db)) \<and> map_of (staging_tbl db) k = Some r
          \<and> map_of (core_tbl db) k = None \<longrightarrow>
        (\<exists>c. map_of (core_tbl db') k = Some c \<and> c_created_at c = now e))
   \<and> (\<forall>runs db' ns old. transform_runs runs db = (db', Inr ns)
          \<and> map_of (core_tbl db) k = Some old \<and> k \<in> fst ` set (staging_tbl db) \<longrightarrow>
        (\<exists>c. map_of (core_tbl db') k = Some c \<and> c_created_at c = c_created_at old))"
proof -
  have statement: "map_of (upsert_core e k new cr) k
        = Some (old\<lparr>c_title := c_title new, c_duration_seconds := c_duration_seconds new,
                    c_duration_label := c_duration_label new, c_updated_at := now e\<rparr>)"
    if "map_of cr k = Some old" for old
    using that by (simp add: map_of_upsert_core)
  have existing: "\<exists>iv. to_interval e (s_duration r) = Some iv
          \<and> map_of (core_tbl db') k
            = Some (old\<lparr>c_title := s_title r, c_duration_seconds := iv,
                        c_duration_label := duration_label (epoch e iv),
                        c_updated_at := now e\<rparr>)"
    if "transform_to_core e date db = (db', Inr n)" "distinct (map fst (staging_tbl db))"
      "map_of (staging_tbl db) k = Some r" "map_of (core_tbl db) k = Some old" for db' n r old
    using transform_to_core_row [OF that(1,2,3)] that(4) by simp
  have inserted: "\<exists>c. map_of (core_tbl db') k = Some c \<and> c_created_at c = now e"
    if "transform_to_core e date db = (db', Inr n)" "distinct (map fst (staging_tbl db))"
      "map_of (staging_tbl db) k = Some r" "map_of (core_tbl db) k = None" for db' n r
    using transform_to_core_row [OF that(1,2,3)] that(4) by auto
  have later: "\<exists>c. map_of (core_tbl db') k = Some c \<and> c_created_at c = c_created_at old"
    if "transform_runs runs db = (db', Inr ns)" "map_of (core_tbl db) k = Some old"
      "k \<in> fst ` set (staging_tbl db)" for runs db' ns old
    using that by (rule transform_runs_created_at)
  from statement existing inserted later show ?thesis
    by blast
qed

text \<open>
  On the example database: Y keeps its creation time 1 through one and through two
  runs, and W is created at the time 7 of the run.
\<close>

theorem core_upsert_frame_witness:
  "map_of (core_tbl example_database) ''Y'' = Some (example_core_row ''old y'')
   \<and> snd (transform_to_core example_env ''2025-10-02T14:00:00'' example_database) = Inr 2
   \<and> distinct (map fst (staging_tbl example_database))
   \<and> map_of (staging_tbl example_database) ''Y'' = Some (example_row ''y'')
   \<and> map_of (core_tbl (fst (transform_to_core example_env ''2025-10-02T14:00:00''
          example_database))) ''Y''
       = Some ((example_core_row ''old y'')\<lparr>c_title := ''y'', c_duration_seconds := 60,
                 c_duration_label := ''long'', c_updated_at := 7\<rparr>)
   \<and> map_of (staging_tbl example_database) ''W''
       = Some ((example_row ''w'')\<lparr>s_duration := ''PT58S''\<rparr>)
   \<and> map_of (core_tbl example_database) ''W'' = None
   \<and> (\<exists>c. map_of (core_tbl (fst (transform_to_core example_env ''2025-10-02T14:00:00''
          example_database))) ''W'' = Some c \<and> c_created_at c = 7)
   \<and> snd (transform_runs [(example_env, ''2025-10-02T14:00:00''),
                           (example_env\<lparr>now := 9\<rparr>, ''2025-10-03T14:00:00Z'')]
          example_database) = Inr [2, 2]
   \<and> ''Y'' \<in> fst ` set (staging_tbl example_database)
   \<and> (\<exists>c. map_of (core_tbl (fst (transform_runs [(example_env, ''2025-10-02T14:00:00''),
                           (example_env\<lparr>now := 9\<rparr>, ''2025-10-03T14:00:00Z'')]
          example_database))) ''Y'' = Some c \<and> c_created_at c = 1)"
proof -
  let ?d = "''2025-10-02T14:00:00''"
  let ?one = "transform_to_core example_env ?d example_database"
  let ?runs = "[(example_env, ''2025-10-02T14:00:00''),
                (example_env\<lparr>now := 9\<rparr>, ''2025-10-03T14:00:00Z'')]"
  let ?two = "transform_runs ?runs example_database"
  have old: "map_of (core_tbl example_database) ''Y'' = Some (example_core_row ''old y'')"
    by (simp add: example_database_def)
  have o1: "snd ?one = Inr 2"
    by (simp only: example_transform_run snd_conv)
  then have r1: "?one = (fst ?one, Inr 2)"
    by (metis prod.collapse)
  have d: "distinct (map fst (staging_tbl example_database))"
    by (simp add: example_database_def)
  have y: "map_of (staging_tbl example_database) ''Y'' = Some (example_row ''y'')"
    by (simp add: example_database_def)
  have w: "map_of (staging_tbl example_database) ''W''
       = Some ((example_row ''w'')\<lparr>s_duration := ''PT58S''\<rparr>)"
    by (simp add: example_database_def)
  have new: "map_of (core_tbl example_database) ''W'' = None"
    by (simp add: example_database_def)
  have o2: "snd ?two = Inr [2, 2]"
    by (simp add: example_transform_defs)
  then have r2: "?two = (fst ?two, Inr [2, 2])"
    by (metis prod.collapse)
  have k: "''Y'' \<in> fst ` set (staging_tbl example_database)"
    by (simp add: example_database_def)
  have iv: "to_interval example_env (s_duration (example_row ''y'')) = Some 60"
    by (simp add: example_transform_defs)
  have lbl: "duration_label (epoch example_env 60) = ''long''"
    by (simp add: example_env_def duration_label_def)
  have nw: "now example_env = 7" "c_created_at (example_core_row ''old y'') = 1"
    "s_title (example_row ''y'') = ''y''"
    by (simp_all add: example_env_def example_core_row_def example_row_def)
  note instY = core_upsert_frame [where k = "''Y''" and e = example_env and db = example_database
      and date = ?d]
  note instW = core_upsert_frame [where k = "''W''" and e = example_env and db = example_database
      and date = ?d]
  from instY [THEN conjunct2, THEN conjunct1, rule_format, of "fst ?one" 2 "example_row ''y''"
      "example_core_row ''old y''"] r1 d y old
  have a: "map_of (core_tbl (fst ?one)) ''Y''
       = Some ((example_core_row ''old y'')\<lparr>c_title := ''y'', c_duration_seconds := 60,
                 c_duration_label := ''long'', c_updated_at := 7\<rparr>)"
    by (auto simp: iv lbl nw)
  from instW [THEN conjunct2, THEN conjunct2, THEN conjunct1, rule_format,
      of "fst ?one" 2 "(example_row ''w'')\<lparr>s_duration := ''PT58S''\<rparr>"] r1 d w new
  have b: "\<exists>c. map_of (core_tbl (fst ?one)) ''W'' = Some c \<and> c_created_at c = 7"
    by (simp add: nw)
  from instY [THEN conjunct2, THEN conjunct2, THEN conjunct2, rule_format,
      of ?runs "fst ?two" "[2, 2]" "example_core_row ''old y''"] r2 old k
  have c: "\<exists>c. map_of (core_tbl (fst ?two)) ''Y'' = Some c \<and> c_created_at c = 1"
    by (simp add: nw)
  show ?thesis
    by (intro conjI) (rule old, rule o1, rule d, rule y, rule a, rule w, rule new, rule b,
      rule o2, rule k, rule c)
qed

end
